theory Spec2Isabelle
  imports Main
begin

section \<open>Strings\<close>

text \<open>
  A JavaScript string is modelled as a \<open>string\<close>, the list of the bytes of its UTF-8 form.
  Every separator the router looks for (\<open>#\<close>, \<open>?\<close>, \<open>/\<close>, \<open>&\<close>, \<open>=\<close>, \<open>+\<close>, \<open>%\<close>)
  is a single ASCII byte that never occurs inside a multi-byte sequence, so splitting the
  bytes splits the string at the same places.
\<close>

text \<open>\<open>s.substring(1)\<close>: the string without its first unit; the empty string stays empty.\<close>

definition substring :: "nat \<Rightarrow> string \<Rightarrow> string" where
  "substring n s = drop n s"

text \<open>
  \<open>s.split(sep)\<close> for a one-character separator: the tokens between the separators, in
  order, empty tokens included; the empty string gives one empty token.
\<close>

fun split_on :: "char \<Rightarrow> string \<Rightarrow> string list" where
  "split_on sep [] = [[]]"
| "split_on sep (c # cs) =
     (if c = sep then [] # split_on sep cs
      else (case split_on sep cs of
              [] \<Rightarrow> [[c]]
            | t # ts \<Rightarrow> (c # t) # ts))"

text \<open>\<open>Boolean(s)\<close> on a string: false for the empty string only.\<close>

definition Boolean :: "string \<Rightarrow> bool" where
  "Boolean s = (s \<noteq> [])"

section \<open>The browser's URL and its session history\<close>

text \<open>
  The document's URL, as the parts the router reads and writes: everything before the query
  (scheme, host and path), the query (absent, or the text after \<open>?\<close>) and the fragment
  (absent, or the text after \<open>#\<close>). Query and fragment are held in their serialised form.
\<close>

record url =
  url_base :: string
  url_query :: "string option"
  url_fragment :: "string option"

text \<open>
  Reading a URL from its text, as far as the URL parser splits it into these parts: the
  fragment starts after the first \<open>#\<close>; the query starts after the first \<open>?\<close> in what
  stands before the fragment.
\<close>

definition after_first :: "char \<Rightarrow> string \<Rightarrow> string option" where
  "after_first c s =
     (case dropWhile (\<lambda>x. x \<noteq> c) s of
        [] \<Rightarrow> None
      | _ # rest \<Rightarrow> Some rest)"

definition before_first :: "char \<Rightarrow> string \<Rightarrow> string" where
  "before_first c s = takeWhile (\<lambda>x. x \<noteq> c) s"

definition url_of_string :: "string \<Rightarrow> url" where
  "url_of_string s =
     (let front = before_first CHR ''#'' s in
      \<lparr> url_base = before_first CHR ''?'' front,
        url_query = after_first CHR ''?'' front,
        url_fragment = after_first CHR ''#'' s \<rparr>)"

text \<open>\<open>location.href\<close>, \<open>location.search\<close> and \<open>location.hash\<close>. The last two are empty
  when the part is absent or empty, and start with \<open>?\<close> or \<open>#\<close> otherwise.\<close>

definition location_href :: "url \<Rightarrow> string" where
  "location_href u =
     url_base u
     @ (case url_query u of None \<Rightarrow> [] | Some q \<Rightarrow> CHR ''?'' # q)
     @ (case url_fragment u of None \<Rightarrow> [] | Some f \<Rightarrow> CHR ''#'' # f)"

definition location_search :: "url \<Rightarrow> string" where
  "location_search u =
     (case url_query u of
        None \<Rightarrow> []
      | Some q \<Rightarrow> if q = [] then [] else CHR ''?'' # q)"

definition location_hash :: "url \<Rightarrow> string" where
  "location_hash u =
     (case url_fragment u of
        None \<Rightarrow> []
      | Some f \<Rightarrow> if f = [] then [] else CHR ''#'' # f)"

section \<open>Query strings: the \<open>URLSearchParams\<close> primitive\<close>

text \<open>
  The browser's \<open>application/x-www-form-urlencoded\<close> parser and serialiser, as the URL
  standard describes them, on bytes. A parameter list is an association list in the
  order of the query string, duplicates kept: that order decides which value wins.
  (A browser also replaces bytes that are not well-formed UTF-8 by U+FFFD after
  decoding; the model keeps the decoded bytes.)
\<close>

definition is_hex :: "char \<Rightarrow> bool" where
  "is_hex c = (c \<in> set ''0123456789abcdefABCDEF'')"

definition hex_value :: "char \<Rightarrow> nat" where
  "hex_value c =
     (let n = of_char c in
      if 97 \<le> n then n - 87 else if 65 \<le> n then n - 55 else n - 48)"

fun percent_decode :: "string \<Rightarrow> string" where
  "percent_decode [] = []"
| "percent_decode (c # cs) =
     (if c = CHR ''%'' then
        (case cs of
           h1 # h2 # rest \<Rightarrow>
             if is_hex h1 \<and> is_hex h2
             then char_of (16 * hex_value h1 + hex_value h2) # percent_decode rest
             else c # percent_decode cs
         | _ \<Rightarrow> c # percent_decode cs)
      else c # percent_decode cs)"

definition plus_to_space :: "char \<Rightarrow> char" where
  "plus_to_space c = (if c = CHR ''+'' then CHR '' '' else c)"

definition urlencoded_decode :: "string \<Rightarrow> string" where
  "urlencoded_decode s = percent_decode (map plus_to_space s)"

text \<open>One \<open>&\<close>-separated sequence: the name is what stands before the first \<open>=\<close>, the
  value what stands after it (empty when there is no \<open>=\<close>).\<close>

definition parse_pair :: "string \<Rightarrow> string \<times> string" where
  "parse_pair bytes =
     (urlencoded_decode (before_first CHR ''='' bytes),
      urlencoded_decode (case after_first CHR ''='' bytes of None \<Rightarrow> [] | Some v \<Rightarrow> v))"

definition urlencoded_parse :: "string \<Rightarrow> (string \<times> string) list" where
  "urlencoded_parse input = map parse_pair (filter Boolean (split_on CHR ''&'' input))"

text \<open>\<open>new URLSearchParams(init)\<close> for a string: one leading \<open>?\<close> is removed, the rest
  parsed. \<open>entries()\<close> iterates the resulting list in order.\<close>

definition URLSearchParams :: "string \<Rightarrow> (string \<times> string) list" where
  "URLSearchParams init =
     urlencoded_parse (case init of
                         [] \<Rightarrow> []
                       | c # cs \<Rightarrow> if c = CHR ''?'' then cs else init)"

text \<open>\<open>params.set(name, value)\<close>: the first pair of that name takes the value and the
  other pairs of that name are removed; without such a pair, a new one is appended.\<close>

fun searchParams_set :: "string \<Rightarrow> string \<Rightarrow> (string \<times> string) list \<Rightarrow> (string \<times> string) list" where
  "searchParams_set name v [] = [(name, v)]"
| "searchParams_set name v (p # ps) =
     (if fst p = name then (name, v) # filter (\<lambda>q. fst q \<noteq> name) ps
      else p # searchParams_set name v ps)"

text \<open>The serialiser: a space becomes \<open>+\<close>, the bytes \<open>* - . _\<close>, digits and ASCII letters
  stand for themselves, every other byte becomes \<open>%\<close> and two upper-case hex digits.\<close>

definition urlencoded_safe :: "char \<Rightarrow> bool" where
  "urlencoded_safe c =
     (c \<in> set ''*-._0123456789ABCDEFGHIJKLMNOPQRSTUVWXYZabcdefghijklmnopqrstuvwxyz'')"

definition hex_digit :: "nat \<Rightarrow> char" where
  "hex_digit n = ''0123456789ABCDEF'' ! (n mod 16)"

definition urlencoded_byte :: "char \<Rightarrow> string" where
  "urlencoded_byte c =
     (if c = CHR '' '' then ''+''
      else if urlencoded_safe c then [c]
      else [CHR ''%'', hex_digit (of_char c div 16), hex_digit (of_char c mod 16)])"

definition urlencoded_encode :: "string \<Rightarrow> string" where
  "urlencoded_encode s = concat (map urlencoded_byte s)"

fun urlencoded_serialize :: "(string \<times> string) list \<Rightarrow> string" where
  "urlencoded_serialize [] = []"
| "urlencoded_serialize [p] = urlencoded_encode (fst p) @ CHR ''='' # urlencoded_encode (snd p)"
| "urlencoded_serialize (p # q # ps) =
     urlencoded_encode (fst p) @ CHR ''='' # urlencoded_encode (snd p)
     @ CHR ''&'' # urlencoded_serialize (q # ps)"

text \<open>
  \<open>url.searchParams.set(key, value)\<close> on a URL object: the parameter list is the parsed
  query (empty when the URL has no query); after the change the query is the serialised
  list, or absent when that is empty.
\<close>

definition url_searchParams_set :: "string \<Rightarrow> string \<Rightarrow> url \<Rightarrow> url" where
  "url_searchParams_set name v u =
     (let params = urlencoded_parse (case url_query u of None \<Rightarrow> [] | Some q \<Rightarrow> q);
          serialized = urlencoded_serialize (searchParams_set name v params)
      in u\<lparr>url_query := (if serialized = [] then None else Some serialized)\<rparr>)"

section \<open>Session history\<close>

text \<open>
  The window: the document's current URL and the same-document history entries before
  and after it, nearest first. \<open>history.pushState\<close> adds an entry after the current one
  and drops the forward entries; \<open>history.replaceState\<close> rewrites the current entry.
  Neither fires an event. Going back makes the nearest earlier entry current and fires
  \<open>popstate\<close>; with no earlier entry of this document there is nothing to return to.
\<close>

record window =
  location :: url
  back_entries :: "url list"
  forward_entries :: "url list"

definition history_pushState :: "url \<Rightarrow> window \<Rightarrow> window" where
  "history_pushState u w =
     w\<lparr>location := u, back_entries := location w # back_entries w, forward_entries := []\<rparr>"

definition history_replaceState :: "url \<Rightarrow> window \<Rightarrow> window" where
  "history_replaceState u w = w\<lparr>location := u\<rparr>"

definition history_back :: "window \<Rightarrow> window option" where
  "history_back w =
     (case back_entries w of
        [] \<Rightarrow> None
      | p # ps \<Rightarrow>
          Some (w\<lparr>location := p, back_entries := ps,
                   forward_entries := location w # forward_entries w\<rparr>))"

text \<open>The number of entries of the session history.\<close>

definition history_length :: "window \<Rightarrow> nat" where
  "history_length w = length (back_entries w) + 1 + length (forward_entries w)"

section \<open>The route state store: \<open>useSimpleRouter\<close>\<close>

text \<open>
  The hook's two state cells: \<open>context\<close>, the route segments (written \<open>context'\<close>, since
  \<open>context\<close> is a keyword of Isabelle), and \<open>state\<close>, the query parameters. The parameter
  object is the map of its own properties.
\<close>

record router =
  context' :: "string list"
  state :: "string \<rightharpoonup> string"

text \<open>The initial cells: \<open>useState([])\<close> and \<open>useState({})\<close>.\<close>

definition initial_router :: router where
  "initial_router = \<lparr> context' = [], state = Map.empty \<rparr>"

text \<open>
  \<open>newState[key] = value\<close> on a plain object, for a string value. The assignment goes
  through the prototype chain: for the key \<open>__proto__\<close> it reaches the accessor of
  \<open>Object.prototype\<close>, whose setter ignores a value that is neither an object nor null, so
  no property is created. Every other key becomes an own property.
\<close>

definition assign :: "(string \<rightharpoonup> string) \<Rightarrow> string \<Rightarrow> string \<Rightarrow> (string \<rightharpoonup> string)" where
  "assign obj key v = (if key = ''__proto__'' then obj else obj(key \<mapsto> v))"

text \<open>
  The object literal \<open>{ ...prev, [key]: value }\<close>: the own properties of \<open>prev\<close> are copied
  and the computed key is defined on the new object, whatever its name.
\<close>

definition spread_with :: "(string \<rightharpoonup> string) \<Rightarrow> string \<Rightarrow> string \<Rightarrow> (string \<rightharpoonup> string)" where
  "spread_with prev key v = prev(key \<mapsto> v)"

text \<open>
  \<open>handleHashChange\<close>: both cells are recomputed from \<open>window.location\<close>. The two setters
  are called with values, so the update replaces the cells whatever they held.
\<close>

definition handleHashChange :: "window \<Rightarrow> router \<Rightarrow> router" where
  "handleHashChange w r =
     (let routeSegments =
            filter Boolean (split_on CHR ''/'' (substring 1 (location_hash (location w))));
          queryString = substring 1 (location_search (location w))
      in r\<lparr> context' := routeSegments,
            state := (if Boolean queryString
                      then fold (\<lambda>(key, v) newState. assign newState key v)
                             (URLSearchParams queryString) Map.empty
                      else Map.empty) \<rparr>)"

text \<open>
  A mounted hook. A setter of React does not change the cells the component holds: it
  queues an update, and the next render applies the queued updates in order and hands
  the resulting cells to the component. So a hook is the cells of the last render,
  \<open>held\<close>, and the queue of updates since, oldest first.
\<close>

record hook =
  held :: router
  queue :: "(router \<Rightarrow> router) list"

definition initial_hook :: hook where
  "initial_hook = \<lparr> held = initial_router, queue = [] \<rparr>"

definition enqueue :: "(router \<Rightarrow> router) \<Rightarrow> hook \<Rightarrow> hook" where
  "enqueue update h = h\<lparr> queue := queue h @ [update] \<rparr>"

definition rerender :: "hook \<Rightarrow> hook" where
  "rerender h = \<lparr> held = fold (\<lambda>update cells. update cells) (queue h) (held h), queue = [] \<rparr>"

text \<open>The update \<open>setState(prev => ({ ...prev, [key]: value }))\<close> of the \<open>state\<close> cell.\<close>

definition merge_parameter :: "string \<Rightarrow> string \<Rightarrow> router \<Rightarrow> router" where
  "merge_parameter key v prev = prev\<lparr> state := spread_with (state prev) key v \<rparr>"

text \<open>
  \<open>pushState\<close> and \<open>replaceState\<close>: a URL object is built from \<open>location.href\<close>, the
  parameter is set on it, the URL is committed to the history (its text is read again
  by the browser), and the merge of the parameter into the \<open>state\<close> cell is queued. The
  document is taken to be under an HTTP(S) URL: the new URL differs from it in the query
  only, and the browser accepts such a URL.
\<close>

definition pushState :: "string \<Rightarrow> string \<Rightarrow> window \<times> hook \<Rightarrow> window \<times> hook" where
  "pushState key v sys =
     (let w = fst sys; h = snd sys;
          url = url_searchParams_set key v (url_of_string (location_href (location w)))
      in (history_pushState (url_of_string (location_href url)) w,
          enqueue (merge_parameter key v) h))"

definition replaceState :: "string \<Rightarrow> string \<Rightarrow> window \<times> hook \<Rightarrow> window \<times> hook" where
  "replaceState key v sys =
     (let w = fst sys; h = snd sys;
          url = url_searchParams_set key v (url_of_string (location_href (location w)))
      in (history_replaceState (url_of_string (location_href url)) w,
          enqueue (merge_parameter key v) h))"

text \<open>
  The listener of \<open>hashchange\<close> and \<open>popstate\<close>: it runs \<open>handleHashChange\<close> on the window
  as it is then, which queues the recomputed cells.
\<close>

definition listener :: "window \<Rightarrow> hook \<Rightarrow> hook" where
  "listener w h = enqueue (handleHashChange w) h"

text \<open>
  The effect on mount: after the first render, which holds the initial cells, the route
  is initialised by one run of the listener.
\<close>

definition mount :: "window \<Rightarrow> window \<times> hook" where
  "mount w = (w, listener w initial_hook)"

text \<open>The next render of the component that uses the hook.\<close>

definition next_render :: "window \<times> hook \<Rightarrow> window \<times> hook" where
  "next_render sys = (fst sys, rerender (snd sys))"

text \<open>
  Back navigation with the router mounted: the browser returns to the earlier entry and
  fires \<open>popstate\<close>, and \<open>hashchange\<close> as well when the fragment differs; each event runs
  the listener. The result is absent when there is no earlier entry of this document.
\<close>

definition navigate_back :: "window \<times> hook \<Rightarrow> (window \<times> hook) option" where
  "navigate_back sys =
     (case history_back (fst sys) of
        None \<Rightarrow> None
      | Some w' \<Rightarrow>
          (let h1 = listener w' (snd sys);
               h2 = (if url_fragment (location w') \<noteq> url_fragment (location (fst sys))
                     then listener w' h1 else h1)
           in Some (w', h2)))"

section \<open>The path matcher: \<open>Route\<close>\<close>

text \<open>
  What a component may return or hold as a child: text, or an element. An element is a
  host element (a tag, or a component other than \<open>Route\<close>, with its children), a
  fragment, or a \<open>Route\<close> element with its four props \<open>depth\<close>, \<open>path\<close>, \<open>element\<close> and
  \<open>children\<close>, each absent or given. A list of children holds the nodes that render
  something (React skips \<open>null\<close>, \<open>undefined\<close> and booleans when it walks children); an
  absent \<open>children\<close> prop stands for any value that \<open>if (children)\<close> takes as false.
  Keys are not modelled.
\<close>

datatype node =
    Text string
  | Element element
and element =
    Host string "node list"
  | Fragment "node list"
  | Route_element "int option" "string option" "element option" "node list option"

text \<open>\<open>context[depth]\<close>: the entry at that index, \<open>undefined\<close> (here \<open>None\<close>) outside
  the array.\<close>

definition index :: "'a list \<Rightarrow> int \<Rightarrow> 'a option" where
  "index xs i = (if 0 \<le> i \<and> i < int (length xs) then Some (xs ! nat i) else None)"

text \<open>\<open>!path\<close> is false exactly for a path that is given and not the empty string.\<close>

definition truthy :: "string option \<Rightarrow> bool" where
  "truthy p = (case p of None \<Rightarrow> False | Some s \<Rightarrow> Boolean s)"

text \<open>\<open>React.cloneElement(element, {}, children)\<close>: the same element with the given
  children in place of its own.\<close>

fun cloneElement :: "element \<Rightarrow> node list \<Rightarrow> element" where
  "cloneElement (Host tag _) cs = Host tag cs"
| "cloneElement (Fragment _) cs = Fragment cs"
| "cloneElement (Route_element d p e _) cs = Route_element d p e (Some cs)"

text \<open>\<open>injectDepth\<close>, the closure of \<open>Route\<close> over its \<open>depth\<close>: a child that is a \<open>Route\<close>
  element is cloned with \<open>depth + 1\<close>, any other child is returned as it is.\<close>

fun injectDepth :: "int \<Rightarrow> node \<Rightarrow> node" where
  "injectDepth depth (Element (Route_element d p e cs)) =
     Element (Route_element (Some (depth + 1)) p e cs)"
| "injectDepth depth child = child"

text \<open>\<open>React.Children.map(children, fn)\<close> on a list of children: what \<open>fn\<close> returns for
  each child, in order.\<close>

definition Children_map :: "(node \<Rightarrow> node) \<Rightarrow> node list \<Rightarrow> node list" where
  "Children_map fn cs = map fn cs"

text \<open>
  \<open>Route\<close>, for the segments \<open>context\<close> of the render it belongs to. It returns what
  \<open>console.warn\<close> was called with and the element to render, \<open>None\<close> for \<open>null\<close>.
\<close>

definition Route ::
  "string list \<Rightarrow> int option \<Rightarrow> string option \<Rightarrow> element option \<Rightarrow> node list option
   \<Rightarrow> string list \<times> element option" where
  "Route ctx depth_prop path elem children_prop =
     (let depth = (case depth_prop of None \<Rightarrow> 0 | Some d \<Rightarrow> d) in
      if \<not> truthy path then
        ([''Route component requires a path prop''], None)
      else if index ctx depth \<noteq> path then
        ([], None)
      else
        (let children = map_option (Children_map (injectDepth depth)) children_prop in
         case (elem, children) of
           (Some e, Some cs) \<Rightarrow> ([], Some (cloneElement e cs))
         | (Some e, None) \<Rightarrow> ([], Some e)
         | (None, Some cs) \<Rightarrow> ([], Some (Fragment cs))
         | (None, None) \<Rightarrow> ([], None)))"

section \<open>Rendering\<close>

text \<open>
  What React makes of a tree: text and host elements stay, a fragment is replaced by its
  rendered children, and a \<open>Route\<close> element is replaced by the rendering of what \<open>Route\<close>
  returns for its props. The warnings of all calls are collected in order.
\<close>

datatype dom = Dom_text string | Dom_element string "dom list"

text \<open>The measure under which rendering terminates: what \<open>Route\<close> returns is lighter
  than the \<open>Route\<close> element it was called for.\<close>

fun weight_node :: "node \<Rightarrow> nat"
  and weight_element :: "element \<Rightarrow> nat" where
  "weight_node (Text s) = 1"
| "weight_node (Element e) = 1 + weight_element e"
| "weight_element (Host tag cs) = 2 + sum_list (map weight_node cs)"
| "weight_element (Fragment cs) = 2 + sum_list (map weight_node cs)"
| "weight_element (Route_element d p e cs) =
     3 + (case e of None \<Rightarrow> 0 | Some x \<Rightarrow> weight_element x)
       + (case cs of None \<Rightarrow> 0 | Some xs \<Rightarrow> sum_list (map weight_node xs))"

lemma weight_node_pos: "0 < weight_node c"
  by (cases c) auto

lemma weight_injectDepth: "weight_node (injectDepth d c) = weight_node c"
  by (cases "(d, c)" rule: injectDepth.cases) auto

lemma weight_Children_map:
  "sum_list (map weight_node (Children_map (injectDepth d) cs)) = sum_list (map weight_node cs)"
  by (induction cs) (simp_all add: Children_map_def weight_injectDepth)

lemma weight_cloneElement:
  "weight_element (cloneElement e cs) \<le> weight_element e + sum_list (map weight_node cs)"
  by (cases e) (auto split: option.splits)

lemma weight_Route:
  assumes "Route ctx d p e cs = (out_log, Some out)"
  shows "weight_element out < weight_element (Route_element d p e cs)"
proof -
  have clone: "weight_element (cloneElement x (Children_map (injectDepth n) xs))
        < 3 + weight_element x + sum_list (map weight_node xs)" for x n xs
    using weight_cloneElement [of x "Children_map (injectDepth n) xs"]
    by (simp add: weight_Children_map)
  show ?thesis
    using assms
    by (auto simp: Route_def Let_def weight_Children_map clone
             split: if_splits option.splits)
qed

function render_node :: "string list \<Rightarrow> node \<Rightarrow> string list \<times> dom list"
  and render_element :: "string list \<Rightarrow> element \<Rightarrow> string list \<times> dom list"
  and render_nodes :: "string list \<Rightarrow> node list \<Rightarrow> string list \<times> dom list" where
  "render_node ctx (Text s) = ([], [Dom_text s])"
| "render_node ctx (Element e) = render_element ctx e"
| "render_element ctx (Host tag cs) =
     (let (l, ds) = render_nodes ctx cs in (l, [Dom_element tag ds]))"
| "render_element ctx (Fragment cs) = render_nodes ctx cs"
| "render_element ctx (Route_element d p e cs) =
     (case Route ctx d p e cs of
        (l, None) \<Rightarrow> (l, [])
      | (l, Some out) \<Rightarrow> (let (l', ds) = render_element ctx out in (l @ l', ds)))"
| "render_nodes ctx [] = ([], [])"
| "render_nodes ctx (c # cs) =
     (let (l, ds) = render_node ctx c; (l', ds') = render_nodes ctx cs in (l @ l', ds @ ds'))"
  by pat_completeness auto
termination
proof (relation "measure (\<lambda>x. case x of
          Inl (ctx, n) \<Rightarrow> weight_node n
        | Inr (Inl (ctx, e)) \<Rightarrow> weight_element e
        | Inr (Inr (ctx, ns)) \<Rightarrow> 1 + sum_list (map weight_node ns))", goal_cases)
  case 1
  show ?case by simp
next
  case (5 ctx d p e cs l r out)
  then have "Route ctx d p e cs = (l, Some out)" by simp
  from weight_Route [OF this] show ?case by simp
qed (auto simp: weight_node_pos)

section \<open>Properties of the route state store\<close>

subsection \<open>Splitting\<close>

lemma split_on_not_Nil: "split_on sep s \<noteq> []"
  by (induction s) (auto split: list.splits)

lemma split_on_no_sep: "sep \<notin> set t \<Longrightarrow> split_on sep t = [t]"
  by (induction t) auto

lemma split_on_append:
  "sep \<notin> set t \<Longrightarrow> split_on sep (t @ sep # rest) = t # split_on sep rest"
  by (induction t) auto

text \<open>A path of non-empty segments, each written after a \<open>/\<close>, splits into these segments.\<close>

lemma segments_of_path:
  assumes "\<forall>s \<in> set segs. s \<noteq> [] \<and> CHR ''/'' \<notin> set s"
  shows "filter Boolean (split_on CHR ''/'' (concat (map (\<lambda>s. CHR ''/'' # s) segs))) = segs"
  using assms
proof (induction segs)
  case Nil
  then show ?case by (simp add: Boolean_def)
next
  case (Cons s segs)
  then have s: "s \<noteq> []" "CHR ''/'' \<notin> set s" by auto
  show ?case
  proof (cases segs)
    case Nil
    with s show ?thesis by (simp add: Boolean_def split_on_no_sep)
  next
    case (Cons t ts)
    have "split_on CHR ''/'' (concat (map (\<lambda>s. CHR ''/'' # s) (s # segs)))
          = [] # s # tl (split_on CHR ''/'' (concat (map (\<lambda>s. CHR ''/'' # s) segs)))"
      using s Cons by (simp add: split_on_append)
    moreover have "split_on CHR ''/'' (concat (map (\<lambda>s. CHR ''/'' # s) segs))
          = [] # tl (split_on CHR ''/'' (concat (map (\<lambda>s. CHR ''/'' # s) segs)))"
      using Cons by simp
    ultimately show ?thesis
      using Cons.IH Cons.prems s
      by (metis (no_types, lifting) Boolean_def filter.simps(2) list.set_intros(2))
  qed
qed

subsection \<open>The cells after each operation\<close>

lemma context_handleHashChange:
  "context' (handleHashChange w r)
   = filter Boolean (split_on CHR ''/'' (substring 1 (location_hash (location w))))"
  by (simp add: handleHashChange_def Let_def)

lemma state_handleHashChange:
  "state (handleHashChange w r)
   = (if Boolean (substring 1 (location_search (location w)))
      then fold (\<lambda>(key, v) newState. assign newState key v)
             (URLSearchParams (substring 1 (location_search (location w)))) Map.empty
      else Map.empty)"
  by (simp add: handleHashChange_def Let_def)

text \<open>A recomputation depends on the current URL only.\<close>

lemma handleHashChange_location:
  "location w = location w' \<Longrightarrow> handleHashChange w r = handleHashChange w' r'"
  by (simp add: handleHashChange_def Let_def)

text \<open>Queued updates: the cells the component holds stay, and the next render applies the
  update to what it would have read without it.\<close>

lemma held_enqueue: "held (enqueue update h) = held h"
  by (simp add: enqueue_def)

lemma held_rerender_enqueue: "held (rerender (enqueue update h)) = update (held (rerender h))"
  by (simp add: enqueue_def rerender_def)

lemma held_rerender_listener:
  "held (rerender (listener w h)) = handleHashChange w (held (rerender h))"
  by (simp add: listener_def held_rerender_enqueue)

lemma held_rerender_idle: "queue h = [] \<Longrightarrow> held (rerender h) = held h"
  by (simp add: rerender_def)

lemma held_rerender_rerender: "held (rerender (rerender h)) = held (rerender h)"
  by (simp add: rerender_def)

lemma snd_pushState: "snd (pushState k v (w, h)) = enqueue (merge_parameter k v) h"
  by (simp add: pushState_def Let_def)

lemma snd_replaceState: "snd (replaceState k v (w, h)) = enqueue (merge_parameter k v) h"
  by (simp add: replaceState_def Let_def)

lemma state_merge_parameter: "state (merge_parameter k v r) = (state r)(k \<mapsto> v)"
  by (simp add: merge_parameter_def spread_with_def)

lemma context_merge_parameter: "context' (merge_parameter k v r) = context' r"
  by (simp add: merge_parameter_def)

text \<open>After the mount and the render that follows, the cells are the recomputed ones.\<close>

lemma held_rerender_initial: "held (rerender initial_hook) = initial_router"
  by (simp add: initial_hook_def rerender_def)

lemma held_mounted:
  "held (snd (next_render (mount w))) = handleHashChange w initial_router"
  by (simp add: next_render_def mount_def held_rerender_listener held_rerender_initial)

text \<open>A router mounted on \<open>http://example.com/page?tab=profile&q=1#/users/42\<close>.\<close>

lemma mount_example:
  "context' (handleHashChange
      \<lparr>location = url_of_string ''http://example.com/page?tab=profile&q=1#/users/42'',
        back_entries = [], forward_entries = []\<rparr> initial_router) = [''users'', ''42'']"
  "state (handleHashChange
      \<lparr>location = url_of_string ''http://example.com/page?tab=profile&q=1#/users/42'',
        back_entries = [], forward_entries = []\<rparr> initial_router) ''q'' = Some ''1''"
  "state (handleHashChange
      \<lparr>location = url_of_string ''http://example.com/page?tab=profile&q=1#/users/42'',
        back_entries = [], forward_entries = []\<rparr> initial_router) ''tab'' = Some ''profile''"
  by code_simp+

subsection \<open>Segments\<close>

text \<open>
  Claim C2. When \<open>location.hash\<close> is \<open>#\<close> followed by \<open>/s\<close> for each of the non-empty,
  slash-free strings \<open>s\<close> of a list (for \<open>#/a/b/c\<close>: the list \<open>a\<close>, \<open>b\<close>, \<open>c\<close>), the
  recomputation sets the segments to exactly that list, in order. When the URL has no
  fragment, or an empty one (the URL ends in \<open>#\<close>), the segments are the empty list.
  No segment is ever the empty string.
\<close>

theorem handleHashChange_segments:
  "(location_hash (location w) = CHR ''#'' # concat (map (\<lambda>s. CHR ''/'' # s) segs)
      \<and> (\<forall>s \<in> set segs. s \<noteq> [] \<and> CHR ''/'' \<notin> set s)
    \<longrightarrow> context' (handleHashChange w r) = segs)
   \<and> (url_fragment (location w) = None \<or> url_fragment (location w) = Some []
    \<longrightarrow> context' (handleHashChange w r) = [])
   \<and> [] \<notin> set (context' (handleHashChange w r))"
proof (intro conjI impI)
  assume "location_hash (location w) = CHR ''#'' # concat (map (\<lambda>s. CHR ''/'' # s) segs)
      \<and> (\<forall>s \<in> set segs. s \<noteq> [] \<and> CHR ''/'' \<notin> set s)"
  then show "context' (handleHashChange w r) = segs"
    by (simp add: context_handleHashChange substring_def segments_of_path)
next
  assume "url_fragment (location w) = None \<or> url_fragment (location w) = Some []"
  then have "location_hash (location w) = []"
    by (auto simp: location_hash_def)
  then show "context' (handleHashChange w r) = []"
    by (simp add: context_handleHashChange substring_def Boolean_def)
next
  show "[] \<notin> set (context' (handleHashChange w r))"
    by (simp add: context_handleHashChange Boolean_def)
qed

theorem handleHashChange_segments_witness:
  "context' (handleHashChange
       \<lparr>location = url_of_string ''http://example.com/page#/a/b/c'',
        back_entries = [], forward_entries = []\<rparr> initial_router) = [''a'', ''b'', ''c'']
   \<and> context' (handleHashChange
       \<lparr>location = url_of_string ''http://example.com/page#'',
        back_entries = [], forward_entries = []\<rparr> initial_router) = []
   \<and> context' (handleHashChange
       \<lparr>location = url_of_string ''http://example.com/page'',
        back_entries = [], forward_entries = []\<rparr> initial_router) = []"
  using handleHashChange_segments
          [of "\<lparr>location = url_of_string ''http://example.com/page#/a/b/c'',
                back_entries = [], forward_entries = []\<rparr>" "[''a'', ''b'', ''c'']" initial_router]
        handleHashChange_segments
          [of "\<lparr>location = url_of_string ''http://example.com/page#'',
                back_entries = [], forward_entries = []\<rparr>" "[]" initial_router]
        handleHashChange_segments
          [of "\<lparr>location = url_of_string ''http://example.com/page'',
                back_entries = [], forward_entries = []\<rparr>" "[]" initial_router]
  by (simp add: url_of_string_def location_hash_def after_first_def before_first_def)

subsection \<open>The mutators\<close>

text \<open>
  Claim C5, as the code has it. Whatever the cells and the queue were, \<open>pushState(k, v)\<close>
  and \<open>replaceState(k, v)\<close> leave the cells the component holds as they are, and the
  next render reads \<open>v\<close> under \<open>k\<close>. The mutators queue the merge themselves: no listener
  runs in between.
\<close>

theorem mutators_next_render_read:
  "held (snd (pushState k v (w, h))) = held h
   \<and> held (snd (replaceState k v (w, h))) = held h
   \<and> state (held (rerender (snd (pushState k v (w, h))))) k = Some v
   \<and> state (held (rerender (snd (replaceState k v (w, h))))) k = Some v"
  by (simp add: snd_pushState snd_replaceState held_enqueue held_rerender_enqueue
        state_merge_parameter)

text \<open>
  Claim C5 as written, for a router mounted and rendered on
  \<open>http://example.com/page?tab=profile\<close>: the parameter map holds \<open>profile\<close> under \<open>tab\<close>,
  and right after \<open>pushState(tab, settings)\<close> or \<open>replaceState(tab, settings)\<close> it still
  does; \<open>settings\<close> is read by the next render only.
\<close>

theorem mutators_immediate_read_counterexample:
  "state (held (snd (next_render (mount
      \<lparr>location = url_of_string ''http://example.com/page?tab=profile'',
        back_entries = [], forward_entries = []\<rparr>)))) ''tab'' = Some ''profile''
   \<and> state (held (snd (pushState ''tab'' ''settings'' (next_render (mount
      \<lparr>location = url_of_string ''http://example.com/page?tab=profile'',
        back_entries = [], forward_entries = []\<rparr>))))) ''tab'' = Some ''profile''
   \<and> state (held (snd (pushState ''tab'' ''settings'' (next_render (mount
      \<lparr>location = url_of_string ''http://example.com/page?tab=profile'',
        back_entries = [], forward_entries = []\<rparr>))))) ''tab'' \<noteq> Some ''settings''
   \<and> state (held (snd (replaceState ''tab'' ''settings'' (next_render (mount
      \<lparr>location = url_of_string ''http://example.com/page?tab=profile'',
        back_entries = [], forward_entries = []\<rparr>))))) ''tab'' \<noteq> Some ''settings''
   \<and> state (held (snd (next_render (pushState ''tab'' ''settings'' (next_render (mount
      \<lparr>location = url_of_string ''http://example.com/page?tab=profile'',
        back_entries = [], forward_entries = []\<rparr>)))))) ''tab'' = Some ''settings''"
  by code_simp

text \<open>
  Claim C9. \<open>pushState(k, v)\<close> and \<open>replaceState(k, v)\<close> leave the cells the component
  holds as they are; and in the next render the segments, and the entry of every key
  other than \<open>k\<close>, are what that render would have read without the call.
\<close>

theorem mutators_frame:
  "held (snd (pushState k v (w, h))) = held h
   \<and> held (snd (replaceState k v (w, h))) = held h
   \<and> context' (held (rerender (snd (pushState k v (w, h))))) = context' (held (rerender h))
   \<and> context' (held (rerender (snd (replaceState k v (w, h))))) = context' (held (rerender h))
   \<and> (k' \<noteq> k \<longrightarrow>
        state (held (rerender (snd (pushState k v (w, h))))) k' = state (held (rerender h)) k'
        \<and> state (held (rerender (snd (replaceState k v (w, h))))) k'
            = state (held (rerender h)) k')"
  by (simp add: snd_pushState snd_replaceState held_enqueue held_rerender_enqueue
        state_merge_parameter context_merge_parameter)

theorem mutators_frame_witness:
  "context' (held (rerender (snd (pushState ''tab'' ''settings''
      (\<lparr>location = url_of_string ''http://example.com/page?tab=profile&q=1#/users/42'',
         back_entries = [], forward_entries = []\<rparr>,
       \<lparr>held = handleHashChange
           \<lparr>location = url_of_string ''http://example.com/page?tab=profile&q=1#/users/42'',
             back_entries = [], forward_entries = []\<rparr> initial_router,
         queue = []\<rparr>))))) = [''users'', ''42'']
   \<and> state (held (rerender (snd (pushState ''tab'' ''settings''
      (\<lparr>location = url_of_string ''http://example.com/page?tab=profile&q=1#/users/42'',
         back_entries = [], forward_entries = []\<rparr>,
       \<lparr>held = handleHashChange
           \<lparr>location = url_of_string ''http://example.com/page?tab=profile&q=1#/users/42'',
             back_entries = [], forward_entries = []\<rparr> initial_router,
         queue = []\<rparr>))))) ''q'' = Some ''1''
   \<and> state (held (rerender (snd (replaceState ''tab'' ''settings''
      (\<lparr>location = url_of_string ''http://example.com/page?tab=profile&q=1#/users/42'',
         back_entries = [], forward_entries = []\<rparr>,
       \<lparr>held = handleHashChange
           \<lparr>location = url_of_string ''http://example.com/page?tab=profile&q=1#/users/42'',
             back_entries = [], forward_entries = []\<rparr> initial_router,
         queue = []\<rparr>))))) ''q'' = Some ''1''"
  using mutators_frame
    [of "''tab''" "''settings''"
        "\<lparr>location = url_of_string ''http://example.com/page?tab=profile&q=1#/users/42'',
          back_entries = [], forward_entries = []\<rparr>"
        "\<lparr>held = handleHashChange
           \<lparr>location = url_of_string ''http://example.com/page?tab=profile&q=1#/users/42'',
             back_entries = [], forward_entries = []\<rparr> initial_router,
          queue = []\<rparr>" "''q''"]
    mount_example
  by (simp add: held_rerender_idle)

subsection \<open>Reading a URL from its text\<close>

lemma before_first_append: "c \<notin> set t \<Longrightarrow> before_first c (t @ c # rest) = t"
  by (induction t) (auto simp: before_first_def)

lemma after_first_append: "c \<notin> set t \<Longrightarrow> after_first c (t @ c # rest) = Some rest"
  by (induction t) (auto simp: after_first_def)

lemma before_first_absent: "c \<notin> set t \<Longrightarrow> before_first c t = t"
  by (induction t) (auto simp: before_first_def)

lemma after_first_absent: "c \<notin> set t \<Longrightarrow> after_first c t = None"
  by (induction t) (auto simp: after_first_def)

lemma url_of_string_clean:
  "CHR ''#'' \<notin> set (url_base (url_of_string s))"
  "CHR ''?'' \<notin> set (url_base (url_of_string s))"
  "url_query (url_of_string s) = Some q \<Longrightarrow> CHR ''#'' \<notin> set q"
proof -
  have front: "CHR ''#'' \<notin> set (before_first CHR ''#'' s)"
    by (auto simp: before_first_def dest: set_takeWhileD)
  show "CHR ''?'' \<notin> set (url_base (url_of_string s))"
    by (auto simp: url_of_string_def Let_def before_first_def dest: set_takeWhileD)
  show "CHR ''#'' \<notin> set (url_base (url_of_string s))"
    using front
    by (auto simp: url_of_string_def Let_def before_first_def [of "CHR ''?''"] dest: set_takeWhileD)
  show "CHR ''#'' \<notin> set q" if "url_query (url_of_string s) = Some q"
  proof -
    from that have "after_first CHR ''?'' (before_first CHR ''#'' s) = Some q"
      by (simp add: url_of_string_def Let_def)
    then have "set q \<subseteq> set (before_first CHR ''#'' s)"
      by (auto simp: after_first_def split: list.splits dest!: arg_cong [where f = set]
               dest: set_dropWhileD)
    with front show ?thesis by auto
  qed
qed

text \<open>A URL whose base holds neither \<open>#\<close> nor \<open>?\<close> and whose query holds no \<open>#\<close> is read
  back from its text as it was.\<close>

lemma url_of_string_location_href:
  assumes "CHR ''#'' \<notin> set (url_base u)" "CHR ''?'' \<notin> set (url_base u)"
    and "\<And>q. url_query u = Some q \<Longrightarrow> CHR ''#'' \<notin> set q"
  shows "url_of_string (location_href u) = u"
proof (cases "url_query u")
  case None
  show ?thesis
  proof (cases "url_fragment u")
    case no_fragment: None
    with None assms show ?thesis
      by (simp add: url_of_string_def location_href_def Let_def before_first_absent after_first_absent)
  next
    case (Some f)
    with None assms show ?thesis
      by (simp add: url_of_string_def location_href_def Let_def before_first_append
            after_first_append before_first_absent after_first_absent)
  qed
next
  case (Some q)
  then have q: "CHR ''#'' \<notin> set q" by (rule assms(3))
  show ?thesis
  proof (cases "url_fragment u")
    case None
    have "CHR ''#'' \<notin> set (url_base u @ CHR ''?'' # q)"
      using assms(1) q by simp
    with None Some assms show ?thesis
      by (simp add: url_of_string_def location_href_def Let_def before_first_append
            after_first_append before_first_absent after_first_absent)
  next
    case frag: (Some f)
    have "CHR ''#'' \<notin> set (url_base u @ CHR ''?'' # q)"
      using assms(1) q by simp
    from before_first_append [OF this, of f] after_first_append [OF this, of f]
    show ?thesis
      using frag Some assms
      by (simp add: url_of_string_def location_href_def Let_def before_first_append
            after_first_append)
  qed
qed

lemma url_of_string_idem: "url_of_string (location_href (url_of_string s)) = url_of_string s"
  by (rule url_of_string_location_href) (simp_all add: url_of_string_clean)

subsection \<open>Encoding and decoding\<close>

lemma hex_digits_table:
  "\<forall>d \<in> set [0..<16]. is_hex (hex_digit d) \<and> hex_value (hex_digit d) = d
      \<and> hex_digit d \<notin> set ''+%&=#?''"
  by code_simp

lemma hex_digit_is_hex: "d < 16 \<Longrightarrow> is_hex (hex_digit d)"
  using hex_digits_table by simp

lemma hex_value_hex_digit: "d < 16 \<Longrightarrow> hex_value (hex_digit d) = d"
  using hex_digits_table by simp

lemma hex_digit_plain: "d < 16 \<Longrightarrow> hex_digit d \<notin> set ''+%&=#?''"
  using hex_digits_table by simp

lemma of_char_div_16: "of_char c div 16 < (16::nat)"
proof -
  have "of_char c < (16 * 16 :: nat)" by simp
  then show ?thesis by (rule less_mult_imp_div_less)
qed

lemma char_of_hex_pair:
  "char_of (16 * hex_value (hex_digit (of_char c div 16))
            + hex_value (hex_digit (of_char c mod 16))) = c"
proof -
  have "16 * (of_char c div 16) + of_char c mod 16 = (of_char c :: nat)"
    by simp
  then show ?thesis
    by (simp add: hex_value_hex_digit of_char_div_16)
qed

lemma safe_plain: "urlencoded_safe c \<Longrightarrow> c \<notin> set ''+%&=#? ''"
  by (auto simp: urlencoded_safe_def)

lemma decode_encode_byte:
  "percent_decode (map plus_to_space (urlencoded_byte c @ rest))
   = c # percent_decode (map plus_to_space rest)"
proof (cases "c = CHR '' ''")
  case True
  then show ?thesis by (simp add: urlencoded_byte_def plus_to_space_def)
next
  case space: False
  show ?thesis
  proof (cases "urlencoded_safe c")
    case True
    with safe_plain [OF True] space show ?thesis
      by (simp add: urlencoded_byte_def plus_to_space_def)
  next
    case False
    have h1: "plus_to_space (hex_digit (of_char c div 16)) = hex_digit (of_char c div 16)"
      using hex_digit_plain [OF of_char_div_16, of c] by (simp add: plus_to_space_def)
    have h2: "plus_to_space (hex_digit (of_char c mod 16)) = hex_digit (of_char c mod 16)"
      using hex_digit_plain [of "of_char c mod 16"] by (simp add: plus_to_space_def)
    have pct: "plus_to_space CHR ''%'' = CHR ''%''"
      by (simp add: plus_to_space_def)
    have "map plus_to_space (urlencoded_byte c @ rest)
          = CHR ''%'' # hex_digit (of_char c div 16) # hex_digit (of_char c mod 16)
            # map plus_to_space rest"
      using False space by (simp add: urlencoded_byte_def h1 h2 pct)
    then show ?thesis
      by (simp add: hex_digit_is_hex of_char_div_16 char_of_hex_pair)
  qed
qed

lemma urlencoded_decode_encode: "urlencoded_decode (urlencoded_encode s) = s"
proof -
  have "percent_decode (map plus_to_space (concat (map urlencoded_byte s))) = s"
  proof (induction s)
    case Nil
    show ?case by simp
  next
    case (Cons c s)
    have "percent_decode (map plus_to_space (concat (map urlencoded_byte (c # s))))
          = percent_decode (map plus_to_space (urlencoded_byte c @ concat (map urlencoded_byte s)))"
      by simp
    also have "\<dots> = c # percent_decode (map plus_to_space (concat (map urlencoded_byte s)))"
      by (rule decode_encode_byte)
    finally show ?case by (simp only: Cons.IH)
  qed
  then show ?thesis
    by (simp add: urlencoded_decode_def urlencoded_encode_def)
qed

lemma urlencoded_byte_plain: "set (urlencoded_byte c) \<inter> set ''&=#?'' = {}"
proof -
  have "hex_digit (of_char c div 16) \<notin> set ''&=#?''" "hex_digit (of_char c mod 16) \<notin> set ''&=#?''"
    using hex_digit_plain [OF of_char_div_16, of c] hex_digit_plain [of "of_char c mod 16"]
    by simp_all
  then show ?thesis
    using safe_plain [of c]
    by (auto simp: urlencoded_byte_def)
qed

lemma urlencoded_encode_plain: "set (urlencoded_encode s) \<inter> set ''&=#?'' = {}"
  using urlencoded_byte_plain by (induction s) (auto simp: urlencoded_encode_def)

subsection \<open>Serialising and parsing a parameter list\<close>

lemma encoded_without:
  "CHR ''&'' \<notin> set (urlencoded_encode s)" "CHR ''='' \<notin> set (urlencoded_encode s)"
  "CHR ''#'' \<notin> set (urlencoded_encode s)" "CHR ''?'' \<notin> set (urlencoded_encode s)"
  using urlencoded_encode_plain [of s] by auto

lemma parse_pair_encoded:
  "parse_pair (urlencoded_encode (fst p) @ CHR ''='' # urlencoded_encode (snd p)) = p"
  by (simp add: parse_pair_def before_first_append after_first_append encoded_without
        urlencoded_decode_encode)

lemma split_serialized:
  "filter Boolean (split_on CHR ''&'' (urlencoded_serialize ps))
   = map (\<lambda>p. urlencoded_encode (fst p) @ CHR ''='' # urlencoded_encode (snd p)) ps"
proof (induction ps rule: urlencoded_serialize.induct)
  case 1
  show ?case by (simp add: Boolean_def)
next
  case (2 p)
  have "CHR ''&'' \<notin> set (urlencoded_encode (fst p) @ CHR ''='' # urlencoded_encode (snd p))"
    by (simp add: encoded_without)
  then show ?case
    by (simp add: split_on_no_sep Boolean_def)
next
  case (3 p q ps)
  have "CHR ''&'' \<notin> set (urlencoded_encode (fst p) @ CHR ''='' # urlencoded_encode (snd p))"
    by (simp add: encoded_without)
  from split_on_append [OF this, of "urlencoded_serialize (q # ps)"] 3 show ?case
    by (simp add: Boolean_def)
qed

lemma urlencoded_parse_serialize: "urlencoded_parse (urlencoded_serialize ps) = ps"
  by (simp add: urlencoded_parse_def split_serialized parse_pair_encoded o_def)

lemma serialized_without:
  "CHR ''#'' \<notin> set (urlencoded_serialize ps)" "CHR ''?'' \<notin> set (urlencoded_serialize ps)"
  by (induction ps rule: urlencoded_serialize.induct) (simp_all add: encoded_without)

lemma serialized_not_empty: "ps \<noteq> [] \<Longrightarrow> urlencoded_serialize ps \<noteq> []"
  by (cases ps rule: urlencoded_serialize.cases) simp_all

lemma searchParams_set_not_empty: "searchParams_set k v ps \<noteq> []"
  by (cases ps) simp_all

lemma URLSearchParams_serialize: "URLSearchParams (urlencoded_serialize ps) = ps"
proof -
  have "(case urlencoded_serialize ps of [] \<Rightarrow> [] | c # cs \<Rightarrow> if c = CHR ''?'' then cs
          else urlencoded_serialize ps) = urlencoded_serialize ps"
    using serialized_without(2) [of ps] by (auto split: list.split)
  then show ?thesis
    by (simp add: URLSearchParams_def urlencoded_parse_serialize)
qed

subsection \<open>The URL a mutator commits\<close>

lemma assign_twist:
  "k \<noteq> ''__proto__'' \<Longrightarrow> a \<noteq> k \<Longrightarrow> (assign m a b)(k \<mapsto> v) = assign (m(k \<mapsto> v)) a b"
  by (auto simp: assign_def)

lemma fold_assign_filter:
  "k \<noteq> ''__proto__'' \<Longrightarrow>
   fold (\<lambda>(key, v) newState. assign newState key v) (filter (\<lambda>q. fst q \<noteq> k) ps) (m(k \<mapsto> v))
   = (fold (\<lambda>(key, v) newState. assign newState key v) ps m)(k \<mapsto> v)"
proof (induction ps arbitrary: m)
  case Nil
  show ?case by simp
next
  case (Cons p ps)
  let ?A = "\<lambda>(key, v) newState. assign newState key v"
  let ?keep = "\<lambda>q. fst q \<noteq> k"
  obtain a b where p: "p = (a, b)" by (cases p)
  show ?case
  proof (cases "a = k")
    case True
    have "fold ?A (filter ?keep (p # ps)) (m(k \<mapsto> v)) = fold ?A (filter ?keep ps) (m(k \<mapsto> v))"
      using True by (simp add: p)
    also have "\<dots> = fold ?A (filter ?keep ps) ((assign m a b)(k \<mapsto> v))"
      using True Cons.prems by (simp add: assign_def)
    also have "\<dots> = (fold ?A ps (assign m a b))(k \<mapsto> v)"
      by (rule Cons.IH [OF Cons.prems])
    also have "\<dots> = (fold ?A (p # ps) m)(k \<mapsto> v)"
      by (simp add: p)
    finally show ?thesis .
  next
    case False
    have "fold ?A (filter ?keep (p # ps)) (m(k \<mapsto> v))
          = fold ?A (filter ?keep ps) (assign (m(k \<mapsto> v)) a b)"
      using False by (simp add: p)
    also have "\<dots> = fold ?A (filter ?keep ps) ((assign m a b)(k \<mapsto> v))"
      by (simp only: assign_twist [OF Cons.prems False])
    also have "\<dots> = (fold ?A ps (assign m a b))(k \<mapsto> v)"
      by (rule Cons.IH [OF Cons.prems])
    also have "\<dots> = (fold ?A (p # ps) m)(k \<mapsto> v)"
      by (simp add: p)
    finally show ?thesis .
  qed
qed

lemma fold_assign_set:
  "k \<noteq> ''__proto__'' \<Longrightarrow>
   fold (\<lambda>(key, v) newState. assign newState key v) (searchParams_set k v ps) m
   = (fold (\<lambda>(key, v) newState. assign newState key v) ps m)(k \<mapsto> v)"
proof (induction ps arbitrary: m)
  case Nil
  then show ?case by (simp add: assign_def)
next
  case (Cons p ps)
  let ?A = "\<lambda>(key, v) newState. assign newState key v"
  obtain a b where p: "p = (a, b)" by (cases p)
  show ?case
  proof (cases "a = k")
    case True
    have "fold ?A (searchParams_set k v (p # ps)) m
          = fold ?A (filter (\<lambda>q. fst q \<noteq> k) ps) (assign m k v)"
      using True by (simp add: p)
    also have "\<dots> = fold ?A (filter (\<lambda>q. fst q \<noteq> k) ps) ((assign m a b)(k \<mapsto> v))"
      using True Cons.prems by (simp add: assign_def)
    also have "\<dots> = (fold ?A ps (assign m a b))(k \<mapsto> v)"
      by (rule fold_assign_filter [OF Cons.prems])
    also have "\<dots> = (fold ?A (p # ps) m)(k \<mapsto> v)"
      by (simp add: p)
    finally show ?thesis .
  next
    case False
    have "fold ?A (searchParams_set k v (p # ps)) m
          = fold ?A (searchParams_set k v ps) (assign m a b)"
      using False by (simp add: p)
    also have "\<dots> = (fold ?A ps (assign m a b))(k \<mapsto> v)"
      by (rule Cons.IH [OF Cons.prems])
    also have "\<dots> = (fold ?A (p # ps) m)(k \<mapsto> v)"
      by (simp add: p)
    finally show ?thesis .
  qed
qed

text \<open>The URL a mutator commits: the normalised current URL with the new query.\<close>

lemma committed_url:
  "location (fst (pushState k v (w, r)))
   = (url_of_string (location_href (location w)))
       \<lparr>url_query := Some (urlencoded_serialize (searchParams_set k v
           (urlencoded_parse (case url_query (url_of_string (location_href (location w))) of
                                None \<Rightarrow> [] | Some q \<Rightarrow> q))))\<rparr>"
proof -
  let ?u = "url_of_string (location_href (location w))"
  let ?ser = "urlencoded_serialize (searchParams_set k v
           (urlencoded_parse (case url_query ?u of None \<Rightarrow> [] | Some q \<Rightarrow> q)))"
  have ser: "?ser \<noteq> []"
    by (rule serialized_not_empty) (rule searchParams_set_not_empty)
  then have set: "url_searchParams_set k v ?u = ?u\<lparr>url_query := Some ?ser\<rparr>"
    by (simp add: url_searchParams_set_def Let_def)
  have "url_of_string (location_href (?u\<lparr>url_query := Some ?ser\<rparr>)) = ?u\<lparr>url_query := Some ?ser\<rparr>"
    by (rule url_of_string_location_href) (simp_all add: url_of_string_clean serialized_without)
  then show ?thesis
    by (simp add: pushState_def Let_def history_pushState_def set)
qed

lemma state_after_commit:
  "state (handleHashChange (fst (pushState k v (w, r))) r')
   = fold (\<lambda>(key, v) newState. assign newState key v)
       (searchParams_set k v
          (urlencoded_parse (case url_query (url_of_string (location_href (location w))) of
                               None \<Rightarrow> [] | Some q \<Rightarrow> q))) Map.empty"
proof -
  let ?ps = "searchParams_set k v
          (urlencoded_parse (case url_query (url_of_string (location_href (location w))) of
                               None \<Rightarrow> [] | Some q \<Rightarrow> q))"
  have ser: "urlencoded_serialize ?ps \<noteq> []"
    by (rule serialized_not_empty) (rule searchParams_set_not_empty)
  then have "substring 1 (location_search (location (fst (pushState k v (w, r)))))
        = urlencoded_serialize ?ps"
    by (simp add: committed_url location_search_def substring_def)
  then show ?thesis
    using ser by (simp add: state_handleHashChange Boolean_def URLSearchParams_serialize)
qed

subsection \<open>History\<close>

text \<open>Recomputing twice gives what recomputing once gives.\<close>

lemma handleHashChange_idem: "handleHashChange w (handleHashChange w r) = handleHashChange w r'"
  by (simp add: handleHashChange_def Let_def)

lemma fst_pushState:
  "fst (pushState k v (w, h)) =
   history_pushState (url_of_string (location_href (url_searchParams_set k v
       (url_of_string (location_href (location w)))))) w"
  by (simp add: pushState_def Let_def)

lemma fst_replaceState:
  "fst (replaceState k v (w, h)) =
   history_replaceState (url_of_string (location_href (url_searchParams_set k v
       (url_of_string (location_href (location w)))))) w"
  by (simp add: replaceState_def Let_def)

text \<open>Where going back leads, and what the next render reads then: the cells recomputed
  from the entry returned to, whatever the cells and the queue were.\<close>

lemma navigate_back_result:
  "map_option (\<lambda>s. (location (fst s), back_entries (fst s), held (rerender (snd s))))
     (navigate_back (w, h))
   = (case back_entries w of
        [] \<Rightarrow> None
      | p # ps \<Rightarrow> Some (p, ps, handleHashChange (w\<lparr>location := p\<rparr>) initial_router))"
proof (cases "back_entries w")
  case Nil
  then show ?thesis by (simp add: navigate_back_def history_back_def)
next
  case (Cons p ps)
  have "handleHashChange (w\<lparr>location := p, back_entries := ps, forward_entries := fs\<rparr>) x
        = handleHashChange (w\<lparr>location := p\<rparr>) initial_router" for fs x
    by (rule handleHashChange_location) simp
  with Cons show ?thesis
    by (simp add: navigate_back_def history_back_def Let_def held_rerender_listener)
qed

text \<open>
  The history entries. Both mutators commit the same URL, the current one with the
  parameter set. \<open>pushState(k, v)\<close> adds an entry for it: the URL it started from becomes
  the nearest earlier entry, and going back returns to that URL, after which the next
  render reads the cells recomputed from it. \<open>replaceState(k, v)\<close> adds no entry: the
  earlier and later entries and the length of the history stay as they were, and going
  back leads where it would have led without the call.
\<close>

theorem history_entries_push_replace:
  "location (fst (pushState k v (w, h)))
     = url_of_string (location_href (url_searchParams_set k v
         (url_of_string (location_href (location w)))))
   \<and> location (fst (replaceState k v (w, h))) = location (fst (pushState k v (w, h)))
   \<and> back_entries (fst (pushState k v (w, h))) = location w # back_entries w
   \<and> map_option (\<lambda>s. (location (fst s), back_entries (fst s), held (rerender (snd s))))
        (navigate_back (pushState k v (w, h)))
     = Some (location w, back_entries w, handleHashChange w initial_router)
   \<and> back_entries (fst (replaceState k v (w, h))) = back_entries w
   \<and> forward_entries (fst (replaceState k v (w, h))) = forward_entries w
   \<and> history_length (fst (replaceState k v (w, h))) = history_length w
   \<and> map_option (\<lambda>s. (location (fst s), back_entries (fst s), held (rerender (snd s))))
        (navigate_back (replaceState k v (w, h)))
     = map_option (\<lambda>s. (location (fst s), back_entries (fst s), held (rerender (snd s))))
        (navigate_back (w, h))"
proof (intro conjI)
  show "location (fst (pushState k v (w, h)))
     = url_of_string (location_href (url_searchParams_set k v
         (url_of_string (location_href (location w)))))"
    by (simp add: fst_pushState history_pushState_def)
  show "location (fst (replaceState k v (w, h))) = location (fst (pushState k v (w, h)))"
    by (simp add: fst_pushState fst_replaceState history_pushState_def history_replaceState_def)
  show "back_entries (fst (pushState k v (w, h))) = location w # back_entries w"
    by (simp add: fst_pushState history_pushState_def)
  have same: "handleHashChange (w\<lparr>back_entries := bs, forward_entries := fs\<rparr>) initial_router
        = handleHashChange w initial_router" for bs fs
    by (rule handleHashChange_location) simp
  have "map_option (\<lambda>s. (location (fst s), back_entries (fst s), held (rerender (snd s))))
        (navigate_back (fst (pushState k v (w, h)), snd (pushState k v (w, h))))
     = Some (location w, back_entries w, handleHashChange w initial_router)"
    unfolding navigate_back_result
    by (simp add: fst_pushState history_pushState_def same)
  then show "map_option (\<lambda>s. (location (fst s), back_entries (fst s), held (rerender (snd s))))
        (navigate_back (pushState k v (w, h)))
     = Some (location w, back_entries w, handleHashChange w initial_router)"
    by simp
  show "back_entries (fst (replaceState k v (w, h))) = back_entries w"
    by (simp add: fst_replaceState history_replaceState_def)
  show "forward_entries (fst (replaceState k v (w, h))) = forward_entries w"
    by (simp add: fst_replaceState history_replaceState_def)
  show "history_length (fst (replaceState k v (w, h))) = history_length w"
    by (simp add: fst_replaceState history_replaceState_def history_length_def)
  have "navigate_back (replaceState k v (w, h))
        = navigate_back (fst (replaceState k v (w, h)), snd (replaceState k v (w, h)))"
    by simp
  then show "map_option (\<lambda>s. (location (fst s), back_entries (fst s), held (rerender (snd s))))
        (navigate_back (replaceState k v (w, h)))
     = map_option (\<lambda>s. (location (fst s), back_entries (fst s), held (rerender (snd s))))
        (navigate_back (w, h))"
    by (simp only: navigate_back_result)
       (simp add: fst_replaceState history_replaceState_def split: list.split)
qed

text \<open>
  Claim C6, at two runs of the router, each with a render after every step.
  Mounted on \<open>http://example.com/page\<close>: after \<open>pushState(__proto__, 1)\<close> the parameter
  map holds \<open>1\<close> under \<open>__proto__\<close>; after \<open>pushState(__proto__, 2)\<close> it holds \<open>2\<close>; going
  back returns to \<open>http://example.com/page?__proto__=1\<close>, and the key is then absent:
  the earlier value is not restored.
  Mounted on \<open>http://example.com/page??a=1\<close>: the map holds \<open>1\<close> under \<open>a\<close>, and still
  does after \<open>pushState(k, v)\<close>; after \<open>pushState(a, 2)\<close> it holds \<open>2\<close>; going back
  returns to the URL of the first push, and \<open>a\<close> is then absent.
\<close>

theorem back_after_push_loses_parameter:
  "(let s1 = next_render (pushState ''__proto__'' ''1'' (next_render (mount
               \<lparr>location = url_of_string ''http://example.com/page'',
                 back_entries = [], forward_entries = []\<rparr>)));
        s2 = next_render (pushState ''__proto__'' ''2'' s1);
        s3 = map_option next_render (navigate_back s2)
    in state (held (snd s1)) ''__proto__'' = Some ''1''
       \<and> state (held (snd s2)) ''__proto__'' = Some ''2''
       \<and> map_option (\<lambda>s. location_href (location (fst s))) s3
           = Some ''http://example.com/page?__proto__=1''
       \<and> location_href (location (fst s1)) = ''http://example.com/page?__proto__=1''
       \<and> map_option (\<lambda>s. state (held (snd s)) ''__proto__'') s3 = Some None)
   \<and> (let s0 = next_render (mount
               \<lparr>location = url_of_string ''http://example.com/page??a=1'',
                 back_entries = [], forward_entries = []\<rparr>);
        s1 = next_render (pushState ''k'' ''v'' s0);
        s2 = next_render (pushState ''a'' ''2'' s1);
        s3 = map_option next_render (navigate_back s2)
    in state (held (snd s0)) ''a'' = Some ''1''
       \<and> state (held (snd s1)) ''a'' = Some ''1''
       \<and> state (held (snd s2)) ''a'' = Some ''2''
       \<and> map_option (\<lambda>s. location_href (location (fst s))) s3
           = Some (location_href (location (fst s1)))
       \<and> location_href (location (fst s1)) = ''http://example.com/page?%3Fa=1&k=v''
       \<and> map_option (\<lambda>s. state (held (snd s)) ''a'') s3 = Some None)"
  by code_simp

subsection \<open>The store and the URL after a mutator\<close>

lemma router_eqI: "context' a = context' b \<Longrightarrow> state a = state b \<Longrightarrow> a = (b :: router)"
  by simp

lemma URLSearchParams_plain:
  "(\<And>rest. q \<noteq> CHR ''?'' # rest) \<Longrightarrow> URLSearchParams q = urlencoded_parse q"
  by (cases q) (auto simp: URLSearchParams_def)

lemma urlencoded_parse_empty: "urlencoded_parse [] = []"
  by (simp add: urlencoded_parse_def Boolean_def)

lemma state_from_query:
  assumes "\<And>rest. url_query (location w) \<noteq> Some (CHR ''?'' # rest)"
  shows "state (handleHashChange w r)
         = fold (\<lambda>(key, v) newState. assign newState key v)
             (urlencoded_parse (case url_query (location w) of None \<Rightarrow> [] | Some q \<Rightarrow> q))
             Map.empty"
proof (cases "url_query (location w)")
  case None
  then show ?thesis
    by (simp add: state_handleHashChange location_search_def substring_def Boolean_def
          urlencoded_parse_empty)
next
  case (Some q)
  with assms have "URLSearchParams q = urlencoded_parse q"
    by (intro URLSearchParams_plain) auto
  with Some show ?thesis
    by (simp add: state_handleHashChange location_search_def substring_def Boolean_def
          urlencoded_parse_empty)
qed

text \<open>
  The two write paths agree. When the current URL was read from text, its query does not
  start with \<open>?\<close>, the key is not \<open>__proto__\<close>, and the cells of the next render are
  what a recomputation from the current URL gives, then after \<open>pushState(k, v)\<close> or
  \<open>replaceState(k, v)\<close> the cells of the next render are again what a recomputation from
  the new current URL gives: a later navigation event changes nothing.
\<close>

theorem mutators_keep_store_and_url_in_sync:
  "location w = url_of_string href
   \<and> (\<forall>rest. url_query (location w) \<noteq> Some (CHR ''?'' # rest))
   \<and> k \<noteq> ''__proto__''
   \<and> handleHashChange w (held (rerender h)) = held (rerender h)
   \<longrightarrow> handleHashChange (fst (pushState k v (w, h)))
           (held (rerender (snd (pushState k v (w, h)))))
         = held (rerender (snd (pushState k v (w, h))))
     \<and> handleHashChange (fst (replaceState k v (w, h)))
           (held (rerender (snd (replaceState k v (w, h)))))
         = held (rerender (snd (replaceState k v (w, h))))"
proof
  assume a: "location w = url_of_string href
   \<and> (\<forall>rest. url_query (location w) \<noteq> Some (CHR ''?'' # rest))
   \<and> k \<noteq> ''__proto__''
   \<and> handleHashChange w (held (rerender h)) = held (rerender h)"
  then have loc: "location w = url_of_string href"
    and k: "k \<noteq> ''__proto__''"
    and sync: "handleHashChange w (held (rerender h)) = held (rerender h)"
    by simp_all
  from a have plain: "url_query (location w) \<noteq> Some (CHR ''?'' # rest)" for rest
    by blast
  let ?w' = "fst (pushState k v (w, h))"
  let ?r = "held (rerender h)"
  let ?r' = "held (rerender (snd (pushState k v (w, h))))"
  have r': "?r' = merge_parameter k v ?r"
    by (simp add: snd_pushState held_rerender_enqueue)
  have norm: "url_of_string (location_href (location w)) = location w"
    by (simp add: loc url_of_string_idem)
  have hash: "location_hash (location ?w') = location_hash (location w)"
    by (simp add: committed_url norm location_hash_def)
  have "context' (handleHashChange ?w' ?r') = context' (handleHashChange w ?r)"
    by (simp add: context_handleHashChange hash)
  then have segments: "context' (handleHashChange ?w' ?r') = context' ?r'"
    by (simp add: sync r' context_merge_parameter)
  have "state (handleHashChange ?w' ?r') = (state (handleHashChange w ?r))(k \<mapsto> v)"
    by (simp only: state_after_commit norm fold_assign_set [OF k] state_from_query [OF plain])
  then have parameters: "state (handleHashChange ?w' ?r') = state ?r'"
    by (simp add: sync r' state_merge_parameter)
  have pushed: "handleHashChange ?w' ?r' = ?r'"
    using segments parameters by (rule router_eqI)
  have "location (fst (replaceState k v (w, h))) = location ?w'"
    by (simp add: pushState_def replaceState_def Let_def history_pushState_def
          history_replaceState_def)
  then have "handleHashChange (fst (replaceState k v (w, h))) ?r' = handleHashChange ?w' ?r'"
    by (rule handleHashChange_location)
  moreover have "held (rerender (snd (replaceState k v (w, h)))) = ?r'"
    by (simp add: snd_pushState snd_replaceState)
  ultimately show "handleHashChange ?w' ?r' = ?r'
     \<and> handleHashChange (fst (replaceState k v (w, h)))
           (held (rerender (snd (replaceState k v (w, h)))))
         = held (rerender (snd (replaceState k v (w, h))))"
    using pushed by simp
qed

lemma sync_example:
  "url_query (url_of_string ''http://example.com/page?tab=profile&q=1#/users/42'')
     = Some ''tab=profile&q=1''"
  "location_href (location (fst (pushState ''tab'' ''a b&c''
      (next_render (mount
         \<lparr>location = url_of_string ''http://example.com/page?tab=profile&q=1#/users/42'',
           back_entries = [], forward_entries = []\<rparr>)))))
     = ''http://example.com/page?tab=a+b%26c&q=1#/users/42''"
  by code_simp+

theorem mutators_keep_store_and_url_in_sync_witness:
  "handleHashChange
     (fst (pushState ''tab'' ''a b&c''
        (\<lparr>location = url_of_string ''http://example.com/page?tab=profile&q=1#/users/42'',
           back_entries = [], forward_entries = []\<rparr>,
         \<lparr>held = handleHashChange
             \<lparr>location = url_of_string ''http://example.com/page?tab=profile&q=1#/users/42'',
               back_entries = [], forward_entries = []\<rparr> initial_router,
           queue = []\<rparr>)))
     (held (rerender (snd (pushState ''tab'' ''a b&c''
        (\<lparr>location = url_of_string ''http://example.com/page?tab=profile&q=1#/users/42'',
           back_entries = [], forward_entries = []\<rparr>,
         \<lparr>held = handleHashChange
             \<lparr>location = url_of_string ''http://example.com/page?tab=profile&q=1#/users/42'',
               back_entries = [], forward_entries = []\<rparr> initial_router,
           queue = []\<rparr>)))))
   = held (rerender (snd (pushState ''tab'' ''a b&c''
        (\<lparr>location = url_of_string ''http://example.com/page?tab=profile&q=1#/users/42'',
           back_entries = [], forward_entries = []\<rparr>,
         \<lparr>held = handleHashChange
             \<lparr>location = url_of_string ''http://example.com/page?tab=profile&q=1#/users/42'',
               back_entries = [], forward_entries = []\<rparr> initial_router,
           queue = []\<rparr>))))"
proof -
  let ?href = "''http://example.com/page?tab=profile&q=1#/users/42''"
  let ?w = "\<lparr>location = url_of_string ?href, back_entries = [], forward_entries = []\<rparr>"
  let ?h = "\<lparr>held = handleHashChange ?w initial_router, queue = []\<rparr>"
  have pre: "location ?w = url_of_string ?href
     \<and> (\<forall>rest. url_query (location ?w) \<noteq> Some (CHR ''?'' # rest))
     \<and> ''tab'' \<noteq> ''__proto__''
     \<and> handleHashChange ?w (held (rerender ?h)) = held (rerender ?h)"
    using handleHashChange_idem [of ?w initial_router initial_router]
    by (simp add: sync_example held_rerender_idle)
  note T = mutators_keep_store_and_url_in_sync
             [of ?w ?href "''tab''" ?h "''a b&c''", THEN mp, OF pre]
  then show ?thesis
    by (rule conjunct1)
qed

text \<open>Recomputing again, with no navigation in between, leaves both cells as they are.\<close>

theorem handleHashChange_idempotent:
  "handleHashChange w (handleHashChange w r) = handleHashChange w r"
  by (simp add: handleHashChange_def Let_def)

subsection \<open>Query parameters\<close>

text \<open>The loop over the entries: a later pair overwrites an earlier one of the same key,
  and a pair under the key \<open>__proto__\<close> leaves no entry.\<close>

lemma fold_assign:
  "fold (\<lambda>(key, v) newState. assign newState key v) ps m k
   = (if k = ''__proto__'' then m k
      else (case map_of (rev ps) k of None \<Rightarrow> m k | Some v \<Rightarrow> Some v))"
proof (induction ps arbitrary: m)
  case Nil
  then show ?case by simp
next
  case (Cons p ps)
  obtain a b where p: "p = (a, b)" by (cases p)
  have "fold (\<lambda>(key, v) newState. assign newState key v) (p # ps) m k
        = fold (\<lambda>(key, v) newState. assign newState key v) ps (assign m a b) k"
    by (simp add: p)
  also have "\<dots> = (if k = ''__proto__'' then assign m a b k
      else (case map_of (rev ps) k of None \<Rightarrow> assign m a b k | Some v \<Rightarrow> Some v))"
    by (rule Cons.IH)
  also have "\<dots> = (if k = ''__proto__'' then m k
      else (case map_of (rev (p # ps)) k of None \<Rightarrow> m k | Some v \<Rightarrow> Some v))"
    by (cases "map_of (rev ps) k") (auto simp: p assign_def map_add_def)
  finally show ?case .
qed

lemma URLSearchParams_empty: "URLSearchParams [] = []"
  by (simp add: URLSearchParams_def urlencoded_parse_def Boolean_def)

lemma URLSearchParams_x_y: "URLSearchParams ''x=1&y=2'' = [(''x'', ''1''), (''y'', ''2'')]"
  by code_simp

lemma proto_example:
  "URLSearchParams (substring 1 (location_search
      (url_of_string ''http://example.com/page?__proto__=1&__proto__=2'')))
     = [(''__proto__'', ''1''), (''__proto__'', ''2'')]"
  "Boolean (substring 1 (location_search
      (url_of_string ''http://example.com/page?__proto__=1&__proto__=2'')))"
  by code_simp+

text \<open>
  Claim C3, at the query string \<open>?__proto__=1&__proto__=2\<close>. The query holds the key
  \<open>__proto__\<close> twice; after the recomputation the parameter map is empty, so the later
  value has not replaced the earlier one: neither is there. The mutators do store the
  same key.
\<close>

theorem handleHashChange_drops_proto_key:
  "URLSearchParams (substring 1 (location_search
      (url_of_string ''http://example.com/page?__proto__=1&__proto__=2'')))
     = [(''__proto__'', ''1''), (''__proto__'', ''2'')]
   \<and> state (handleHashChange
        \<lparr>location = url_of_string ''http://example.com/page?__proto__=1&__proto__=2'',
          back_entries = [], forward_entries = []\<rparr> initial_router) = Map.empty
   \<and> state (held (rerender (snd (pushState ''__proto__'' ''2''
        (\<lparr>location = url_of_string ''http://example.com/page'',
           back_entries = [], forward_entries = []\<rparr>, initial_hook))))) ''__proto__''
       = Some ''2''"
proof -
  let ?w = "\<lparr>location = url_of_string ''http://example.com/page?__proto__=1&__proto__=2'',
             back_entries = [], forward_entries = []\<rparr>"
  have "state (handleHashChange ?w initial_router)
        = fold (\<lambda>(key, v) newState. assign newState key v)
            [(''__proto__'', ''1''), (''__proto__'', ''2'')] Map.empty"
    using proto_example by (simp add: state_handleHashChange)
  then have dropped: "state (handleHashChange ?w initial_router) = Map.empty"
    by (simp add: assign_def)
  have stored: "state (held (rerender (snd (pushState ''__proto__'' ''2''
        (\<lparr>location = url_of_string ''http://example.com/page'',
           back_entries = [], forward_entries = []\<rparr>, initial_hook))))) ''__proto__''
       = Some ''2''"
    by (simp add: snd_pushState held_rerender_enqueue state_merge_parameter)
  from proto_example(1) dropped stored show ?thesis
    by (intro conjI)
qed

text \<open>
  The parameter map after a recomputation. For the query string \<open>?x=1&y=2\<close> it is
  \<open>x \<mapsto> 1, y \<mapsto> 2\<close>; without a query, or with an empty one, it is empty; and in general
  every key other than \<open>__proto__\<close> holds the value of its last occurrence in the query
  string and is absent when it does not occur, while \<open>__proto__\<close> is always absent.
\<close>

theorem handleHashChange_parameters:
  "(location_search (location w) = ''?x=1&y=2'' \<longrightarrow>
      state (handleHashChange w r) = [''x'' \<mapsto> ''1'', ''y'' \<mapsto> ''2''])
   \<and> (url_query (location w) = None \<or> url_query (location w) = Some [] \<longrightarrow>
      state (handleHashChange w r) = Map.empty)
   \<and> state (handleHashChange w r) k
      = (if k = ''__proto__'' then None
         else map_of (rev (URLSearchParams (substring 1 (location_search (location w))))) k)"
proof (intro conjI impI)
  assume "location_search (location w) = ''?x=1&y=2''"
  then show "state (handleHashChange w r) = [''x'' \<mapsto> ''1'', ''y'' \<mapsto> ''2'']"
    by (simp add: state_handleHashChange substring_def URLSearchParams_x_y assign_def Boolean_def)
next
  assume "url_query (location w) = None \<or> url_query (location w) = Some []"
  then have "location_search (location w) = []"
    by (auto simp: location_search_def)
  then show "state (handleHashChange w r) = Map.empty"
    by (simp add: state_handleHashChange substring_def Boolean_def)
next
  show "state (handleHashChange w r) k
      = (if k = ''__proto__'' then None
         else map_of (rev (URLSearchParams (substring 1 (location_search (location w))))) k)"
    by (auto simp: state_handleHashChange fold_assign Boolean_def URLSearchParams_empty
             split: option.split)
qed

theorem handleHashChange_parameters_witness:
  "state (handleHashChange
      \<lparr>location = url_of_string ''http://example.com/page?x=1&y=2'',
        back_entries = [], forward_entries = []\<rparr> initial_router)
     = [''x'' \<mapsto> ''1'', ''y'' \<mapsto> ''2'']
   \<and> state (handleHashChange
      \<lparr>location = url_of_string ''http://example.com/page'',
        back_entries = [], forward_entries = []\<rparr> initial_router) = Map.empty
   \<and> state (handleHashChange
      \<lparr>location = url_of_string ''http://example.com/page?a=1&b=2&a=3'',
        back_entries = [], forward_entries = []\<rparr> initial_router) ''a'' = Some ''3''"
proof -
  let ?w1 = "\<lparr>location = url_of_string ''http://example.com/page?x=1&y=2'',
              back_entries = [], forward_entries = []\<rparr>"
  let ?w2 = "\<lparr>location = url_of_string ''http://example.com/page'',
              back_entries = [], forward_entries = []\<rparr>"
  let ?w3 = "\<lparr>location = url_of_string ''http://example.com/page?a=1&b=2&a=3'',
              back_entries = [], forward_entries = []\<rparr>"
  have "location_search (location ?w1) = ''?x=1&y=2''"
    by code_simp
  with handleHashChange_parameters [of ?w1 initial_router]
  have first: "state (handleHashChange ?w1 initial_router) = [''x'' \<mapsto> ''1'', ''y'' \<mapsto> ''2'']"
    by blast
  have "url_query (location ?w2) = None"
    by code_simp
  with handleHashChange_parameters [of ?w2 initial_router]
  have second: "state (handleHashChange ?w2 initial_router) = Map.empty"
    by blast
  have "map_of (rev (URLSearchParams (substring 1 (location_search (location ?w3))))) ''a''
        = Some ''3''"
    by code_simp
  with handleHashChange_parameters [of ?w3 initial_router "''a''"]
  have third: "state (handleHashChange ?w3 initial_router) ''a'' = Some ''3''"
    by simp
  from first second third show ?thesis
    by (intro conjI)
qed

section \<open>Properties of the path matcher\<close>

lemma Route_no_path:
  "\<not> truthy path \<Longrightarrow> Route ctx d path e cs = ([''Route component requires a path prop''], None)"
  by (simp add: Route_def)

lemma Route_mismatch:
  "p \<noteq> [] \<Longrightarrow> index ctx depth \<noteq> Some p \<Longrightarrow> Route ctx (Some depth) (Some p) e cs = ([], None)"
  by (simp add: Route_def truthy_def Boolean_def)

lemma Route_match:
  "p \<noteq> [] \<Longrightarrow> index ctx depth = Some p \<Longrightarrow>
   Route ctx (Some depth) (Some p) e cs =
     (case (e, map_option (Children_map (injectDepth depth)) cs) of
        (Some el, Some xs) \<Rightarrow> ([], Some (cloneElement el xs))
      | (Some el, None) \<Rightarrow> ([], Some el)
      | (None, Some xs) \<Rightarrow> ([], Some (Fragment xs))
      | (None, None) \<Rightarrow> ([], None))"
  by (simp add: Route_def truthy_def Boolean_def Let_def)

lemma Route_default_depth: "Route ctx None path e cs = Route ctx (Some 0) path e cs"
  by (simp add: Route_def)

lemma index_out_of_range: "int (length xs) \<le> i \<Longrightarrow> index xs i = None"
  by (simp add: index_def)

lemma index_negative: "i < 0 \<Longrightarrow> index xs i = None"
  by (simp add: index_def)

lemma index_in_set: "index xs i = Some x \<Longrightarrow> x \<in> set xs"
  by (auto simp: index_def split: if_splits)

text \<open>
  Claim C7. Whatever the segments, the depth, the element and the children are, a
  \<open>Route\<close> without a path warns once and returns \<open>null\<close>, and renders to nothing.
\<close>

theorem Route_without_path:
  "Route ctx d None e cs = ([''Route component requires a path prop''], None)
   \<and> render_element ctx (Route_element d None e cs)
       = ([''Route component requires a path prop''], [])"
  by (simp add: Route_no_path truthy_def)

text \<open>
  Claim C4. For a non-empty path: when the segment at index \<open>depth\<close> is the path, \<open>Route\<close>
  returns its subtree (the element around the children, the element alone, the children
  as a fragment, or nothing when it has neither), without a warning; when it is any
  other string, or there is no segment at that index, \<open>Route\<close> returns \<open>null\<close>. So a
  \<open>Route\<close> that has an element or children returns something exactly when the segment
  equals the path. A depth at or beyond the number of segments is such a non-match.
  A \<open>Route\<close> without a depth is at depth 0.
\<close>

theorem Route_renders_iff_segment_matches:
  "p \<noteq> [] \<longrightarrow>
     (index ctx depth = Some p \<longrightarrow>
        Route ctx (Some depth) (Some p) e cs =
          (case (e, map_option (Children_map (injectDepth depth)) cs) of
             (Some el, Some xs) \<Rightarrow> ([], Some (cloneElement el xs))
           | (Some el, None) \<Rightarrow> ([], Some el)
           | (None, Some xs) \<Rightarrow> ([], Some (Fragment xs))
           | (None, None) \<Rightarrow> ([], None)))
     \<and> (index ctx depth \<noteq> Some p \<longrightarrow> Route ctx (Some depth) (Some p) e cs = ([], None))
     \<and> (e \<noteq> None \<or> cs \<noteq> None \<longrightarrow>
          (snd (Route ctx (Some depth) (Some p) e cs) \<noteq> None) = (index ctx depth = Some p))
     \<and> (int (length ctx) \<le> depth \<longrightarrow> Route ctx (Some depth) (Some p) e cs = ([], None))
     \<and> Route ctx None (Some p) e cs = Route ctx (Some 0) (Some p) e cs"
proof (intro impI conjI)
  assume p: "p \<noteq> []"
  show "Route ctx (Some depth) (Some p) e cs =
          (case (e, map_option (Children_map (injectDepth depth)) cs) of
             (Some el, Some xs) \<Rightarrow> ([], Some (cloneElement el xs))
           | (Some el, None) \<Rightarrow> ([], Some el)
           | (None, Some xs) \<Rightarrow> ([], Some (Fragment xs))
           | (None, None) \<Rightarrow> ([], None))"
    if "index ctx depth = Some p"
    using p that by (rule Route_match)
  show "Route ctx (Some depth) (Some p) e cs = ([], None)" if "index ctx depth \<noteq> Some p"
    using p that by (rule Route_mismatch)
  show "(snd (Route ctx (Some depth) (Some p) e cs) \<noteq> None) = (index ctx depth = Some p)"
    if "e \<noteq> None \<or> cs \<noteq> None"
  proof (cases "index ctx depth = Some p")
    case True
    with p that show ?thesis
      by (auto simp: Route_match split: option.splits)
  next
    case False
    with p show ?thesis by (simp add: Route_mismatch)
  qed
  show "Route ctx (Some depth) (Some p) e cs = ([], None)" if "int (length ctx) \<le> depth"
    using p that by (simp add: Route_mismatch index_out_of_range)
  show "Route ctx None (Some p) e cs = Route ctx (Some 0) (Some p) e cs"
    by (rule Route_default_depth)
qed

theorem Route_renders_iff_segment_matches_witness:
  "Route [''users'', ''42''] (Some 1) (Some ''42'') (Some (Host ''Profile'' [])) None
     = ([], Some (Host ''Profile'' []))
   \<and> Route [''users'', ''42''] (Some 1) (Some ''99'') (Some (Host ''Profile'' [])) None = ([], None)
   \<and> Route [''users'', ''42''] (Some 1) (Some ''4'') (Some (Host ''Profile'' [])) None = ([], None)
   \<and> Route [''users'', ''42''] (Some 2) (Some ''42'') (Some (Host ''Profile'' [])) None = ([], None)
   \<and> Route [''users'', ''42''] None (Some ''users'') None (Some [Text ''hello''])
     = ([], Some (Fragment [Text ''hello'']))"
  using Route_renders_iff_segment_matches
          [of "''42''" "[''users'', ''42'']" 1 "Some (Host ''Profile'' [])" None]
        Route_renders_iff_segment_matches
          [of "''99''" "[''users'', ''42'']" 1 "Some (Host ''Profile'' [])" None]
        Route_renders_iff_segment_matches
          [of "''4''" "[''users'', ''42'']" 1 "Some (Host ''Profile'' [])" None]
        Route_renders_iff_segment_matches
          [of "''42''" "[''users'', ''42'']" 2 "Some (Host ''Profile'' [])" None]
        Route_renders_iff_segment_matches
          [of "''users''" "[''users'', ''42'']" 0 None "Some [Text ''hello'']"]
  by (simp add: index_def Children_map_def)

text \<open>
  Claim C10. A \<open>Route\<close> whose path is the empty string takes the branch of the missing
  path: it warns and returns \<open>null\<close>, whatever the segments and the depth. And no segment
  of a recomputed route is the empty string, at any index.
\<close>

theorem Route_empty_path:
  "Route ctx d (Some []) e cs = ([''Route component requires a path prop''], None)
   \<and> render_element ctx (Route_element d (Some []) e cs)
       = ([''Route component requires a path prop''], [])
   \<and> index (context' (handleHashChange w r)) i \<noteq> Some []"
proof -
  have "[] \<notin> set (context' (handleHashChange w r))"
    by (simp add: handleHashChange_def Let_def Boolean_def)
  then have "index (context' (handleHashChange w r)) i \<noteq> Some []"
    using index_in_set by metis
  then show ?thesis
    by (simp add: Route_no_path truthy_def Boolean_def)
qed

text \<open>
  Claim C8. When a \<open>Route\<close> at depth \<open>d\<close> with children matches, what it returns holds
  the children in their order, each passed through \<open>injectDepth\<close>: a child that is a
  \<open>Route\<close> element has depth \<open>d + 1\<close> (whatever depth it was given) and its other props
  as before, and is rendered as a \<open>Route\<close> at depth \<open>d + 1\<close>; a text, a host element and
  a fragment are returned unchanged.
\<close>

theorem Route_depth_propagation:
  "p \<noteq> [] \<and> index ctx depth = Some p \<longrightarrow>
     Route ctx (Some depth) (Some p) e (Some cs) =
       ([], Some (case e of
                    None \<Rightarrow> Fragment (map (injectDepth depth) cs)
                  | Some el \<Rightarrow> cloneElement el (map (injectDepth depth) cs)))
     \<and> injectDepth depth (Element (Route_element d' p' e' cs'))
         = Element (Route_element (Some (depth + 1)) p' e' cs')
     \<and> render_node ctx (injectDepth depth (Element (Route_element d' p' e' cs')))
         = render_element ctx (Route_element (Some (depth + 1)) p' e' cs')
     \<and> injectDepth depth (Text s) = Text s
     \<and> injectDepth depth (Element (Host tag xs)) = Element (Host tag xs)
     \<and> injectDepth depth (Element (Fragment xs)) = Element (Fragment xs)"
  by (simp add: Route_match Children_map_def split: option.splits)

theorem Route_depth_propagation_witness:
  "Route [''users'', ''42''] (Some 0) (Some ''users'') None
     (Some [Element (Route_element None (Some ''42'') None None),
            Text ''hello'',
            Element (Route_element (Some 7) (Some ''99'') None None)])
   = ([], Some (Fragment [Element (Route_element (Some 1) (Some ''42'') None None),
                          Text ''hello'',
                          Element (Route_element (Some 1) (Some ''99'') None None)]))"
  using Route_depth_propagation
    [of "''users''" "[''users'', ''42'']" 0 None
        "[Element (Route_element None (Some ''42'') None None),
          Text ''hello'',
          Element (Route_element (Some 7) (Some ''99'') None None)]"]
  by (simp add: index_def)

text \<open>
  Nested matchers. A \<open>Route\<close> with path \<open>a\<close> around a \<open>Route\<close> with path \<open>b\<close> and an element
  renders that element when the first segment is \<open>a\<close> and the second is \<open>b\<close>, and renders
  nothing otherwise.
\<close>

theorem nested_Routes_render:
  "a \<noteq> [] \<and> b \<noteq> [] \<longrightarrow>
   render_node ctx
     (Element (Route_element None (Some a) None
        (Some [Element (Route_element None (Some b) (Some content) None)])))
   = (if index ctx 0 = Some a \<and> index ctx 1 = Some b
      then render_element ctx content else ([], []))"
proof
  assume ab: "a \<noteq> [] \<and> b \<noteq> []"
  let ?inner = "Route_element None (Some b) (Some content) None"
  let ?inner' = "Route_element (Some 1) (Some b) (Some content) None"
  show "render_node ctx (Element (Route_element None (Some a) None (Some [Element ?inner])))
   = (if index ctx 0 = Some a \<and> index ctx 1 = Some b
      then render_element ctx content else ([], []))"
  proof (cases "index ctx 0 = Some a")
    case False
    with ab have "Route ctx None (Some a) None (Some [Element ?inner]) = ([], None)"
      by (simp add: Route_default_depth Route_mismatch)
    with False show ?thesis by simp
  next
    case True
    with ab have outer: "Route ctx None (Some a) None (Some [Element ?inner])
        = ([], Some (Fragment [Element ?inner']))"
      by (simp add: Route_default_depth Route_match Children_map_def)
    show ?thesis
    proof (cases "index ctx 1 = Some b")
      case False
      with ab have "Route ctx (Some 1) (Some b) (Some content) None = ([], None)"
        by (simp add: Route_mismatch)
      with outer True False show ?thesis by simp
    next
      case b: True
      with ab have "Route ctx (Some 1) (Some b) (Some content) None = ([], Some content)"
        by (simp add: Route_match)
      with outer True b show ?thesis by (simp split: prod.split)
    qed
  qed
qed

theorem nested_Routes_render_witness:
  "render_node [''a'', ''b'', ''c'']
     (Element (Route_element None (Some ''a'') None
        (Some [Element (Route_element None (Some ''b'') (Some (Host ''Page'' [])) None)])))
   = ([], [Dom_element ''Page'' []])
   \<and> render_node [''a'', ''x'']
     (Element (Route_element None (Some ''a'') None
        (Some [Element (Route_element None (Some ''b'') (Some (Host ''Page'' [])) None)])))
   = ([], [])"
  using nested_Routes_render [of "''a''" "''b''" "[''a'', ''b'', ''c'']" "Host ''Page'' []"]
        nested_Routes_render [of "''a''" "''b''" "[''a'', ''x'']" "Host ''Page'' []"]
  by (simp add: index_def)

section \<open>The scenario\<close>

lemma url_of_string_parts:
  assumes "CHR ''#'' \<notin> set base" "CHR ''?'' \<notin> set base"
    and "CHR ''#'' \<notin> set q"
  shows "url_of_string (base @ CHR ''?'' # q @ CHR ''#'' # f)
         = \<lparr>url_base = base, url_query = Some q, url_fragment = Some f\<rparr>"
proof -
  have "CHR ''#'' \<notin> set (base @ CHR ''?'' # q)"
    using assms by simp
  then have front: "before_first CHR ''#'' ((base @ CHR ''?'' # q) @ CHR ''#'' # f) = base @ CHR ''?'' # q"
    and frag: "after_first CHR ''#'' ((base @ CHR ''?'' # q) @ CHR ''#'' # f) = Some f"
    by (rule before_first_append, rule after_first_append)
  show ?thesis
    using front frag assms(2)
    by (simp add: url_of_string_def Let_def before_first_append after_first_append)
qed

lemma users_42_queries:
  "URLSearchParams ''tab=profile'' = [(''tab'', ''profile'')]"
  "filter Boolean (split_on CHR ''/'' ''/users/42'') = [''users'', ''42'']"
  by code_simp+

lemma scenario_segments_and_parameters:
  assumes "location w = \<lparr>url_base = base, url_query = Some ''tab=profile'', url_fragment = Some ''/users/42''\<rparr>"
  shows "context' (handleHashChange w r) = [''users'', ''42'']"
    and "state (handleHashChange w r) = [''tab'' \<mapsto> ''profile'']"
  using assms users_42_queries
  by (simp_all add: context_handleHashChange state_handleHashChange location_hash_def
        location_search_def substring_def Boolean_def assign_def)

lemma scenario_render:
  "render_node [''users'', ''42'']
     (Element (Route_element None (Some ''users'') None
        (Some [Element (Route_element None (Some ''42'') (Some content) None),
               Element (Route_element None (Some ''99'') (Some other) None)])))
   = render_element [''users'', ''42''] content"
proof -
  have outer: "Route [''users'', ''42''] None (Some ''users'') None
        (Some [Element (Route_element None (Some ''42'') (Some content) None),
               Element (Route_element None (Some ''99'') (Some other) None)])
      = ([], Some (Fragment [Element (Route_element (Some 1) (Some ''42'') (Some content) None),
                             Element (Route_element (Some 1) (Some ''99'') (Some other) None)]))"
    by (simp add: Route_default_depth Route_match index_def Children_map_def)
  have inner42: "Route [''users'', ''42''] (Some 1) (Some ''42'') (Some content) None = ([], Some content)"
    by (simp add: Route_match index_def)
  have inner99: "Route [''users'', ''42''] (Some 1) (Some ''99'') (Some other) None = ([], None)"
    by (simp add: Route_mismatch index_def)
  show ?thesis
    by (simp add: outer inner42 inner99 split: prod.split)
qed

text \<open>
  Claim C1, with the query before the fragment. For a URL \<open>...?tab=profile#/users/42\<close>
  the recomputation gives the segments \<open>users\<close>, \<open>42\<close> and the parameter map
  \<open>tab \<mapsto> profile\<close>. A \<open>Route\<close> with path \<open>users\<close> (at depth 0) matches and hands depth 1
  to its two nested \<open>Route\<close> children; the one with path \<open>42\<close> matches and returns its
  content, the one with path \<open>99\<close> returns \<open>null\<close>; the whole tree renders to the
  rendering of that content.
\<close>

theorem scenario_users_42:
  "CHR ''#'' \<notin> set base \<and> CHR ''?'' \<notin> set base
     \<and> location w = url_of_string (base @ ''?tab=profile#/users/42'') \<longrightarrow>
   context' (handleHashChange w r) = [''users'', ''42'']
   \<and> state (handleHashChange w r) = [''tab'' \<mapsto> ''profile'']
   \<and> Route (context' (handleHashChange w r)) None (Some ''users'') None
        (Some [Element (Route_element None (Some ''42'') (Some content) None),
               Element (Route_element None (Some ''99'') (Some other) None)])
      = ([], Some (Fragment [Element (Route_element (Some 1) (Some ''42'') (Some content) None),
                             Element (Route_element (Some 1) (Some ''99'') (Some other) None)]))
   \<and> Route (context' (handleHashChange w r)) (Some 1) (Some ''42'') (Some content) None
      = ([], Some content)
   \<and> Route (context' (handleHashChange w r)) (Some 1) (Some ''99'') (Some other) None
      = ([], None)
   \<and> render_node (context' (handleHashChange w r))
        (Element (Route_element None (Some ''users'') None
           (Some [Element (Route_element None (Some ''42'') (Some content) None),
                  Element (Route_element None (Some ''99'') (Some other) None)])))
      = render_element (context' (handleHashChange w r)) content"
proof (intro impI)
  assume a: "CHR ''#'' \<notin> set base \<and> CHR ''?'' \<notin> set base
     \<and> location w = url_of_string (base @ ''?tab=profile#/users/42'')"
  have "url_of_string (base @ CHR ''?'' # ''tab=profile'' @ CHR ''#'' # ''/users/42'')
        = \<lparr>url_base = base, url_query = Some ''tab=profile'', url_fragment = Some ''/users/42''\<rparr>"
    using a by (intro url_of_string_parts) simp_all
  with a have loc: "location w = \<lparr>url_base = base, url_query = Some ''tab=profile'',
                                   url_fragment = Some ''/users/42''\<rparr>"
    by simp
  note ctx = scenario_segments_and_parameters(1) [OF loc, of r]
  note st = scenario_segments_and_parameters(2) [OF loc, of r]
  show "context' (handleHashChange w r) = [''users'', ''42'']
   \<and> state (handleHashChange w r) = [''tab'' \<mapsto> ''profile'']
   \<and> Route (context' (handleHashChange w r)) None (Some ''users'') None
        (Some [Element (Route_element None (Some ''42'') (Some content) None),
               Element (Route_element None (Some ''99'') (Some other) None)])
      = ([], Some (Fragment [Element (Route_element (Some 1) (Some ''42'') (Some content) None),
                             Element (Route_element (Some 1) (Some ''99'') (Some other) None)]))
   \<and> Route (context' (handleHashChange w r)) (Some 1) (Some ''42'') (Some content) None
      = ([], Some content)
   \<and> Route (context' (handleHashChange w r)) (Some 1) (Some ''99'') (Some other) None
      = ([], None)
   \<and> render_node (context' (handleHashChange w r))
        (Element (Route_element None (Some ''users'') None
           (Some [Element (Route_element None (Some ''42'') (Some content) None),
                  Element (Route_element None (Some ''99'') (Some other) None)])))
      = render_element (context' (handleHashChange w r)) content"
    unfolding ctx st
    by (intro conjI refl scenario_render)
       (simp_all add: Route_default_depth Route_match Route_mismatch index_def Children_map_def)
qed


theorem scenario_users_42_witness:
  "context' (handleHashChange
      \<lparr>location = url_of_string ''http://example.com/page?tab=profile#/users/42'',
        back_entries = [], forward_entries = []\<rparr> initial_router) = [''users'', ''42'']
   \<and> state (handleHashChange
      \<lparr>location = url_of_string ''http://example.com/page?tab=profile#/users/42'',
        back_entries = [], forward_entries = []\<rparr> initial_router) = [''tab'' \<mapsto> ''profile'']
   \<and> render_node (context' (handleHashChange
      \<lparr>location = url_of_string ''http://example.com/page?tab=profile#/users/42'',
        back_entries = [], forward_entries = []\<rparr> initial_router))
        (Element (Route_element None (Some ''users'') None
           (Some [Element (Route_element None (Some ''42'')
                     (Some (Host ''Profile'' [Text ''user 42''])) None),
                  Element (Route_element None (Some ''99'')
                     (Some (Host ''Other'' [])) None)])))
      = ([], [Dom_element ''Profile'' [Dom_text ''user 42'']])"
proof -
  let ?w = "\<lparr>location = url_of_string ''http://example.com/page?tab=profile#/users/42'',
             back_entries = [], forward_entries = []\<rparr>"
  let ?ctx = "context' (handleHashChange ?w initial_router)"
  let ?content = "Host ''Profile'' [Text ''user 42'']"
  let ?tree = "Element (Route_element None (Some ''users'') None
           (Some [Element (Route_element None (Some ''42'') (Some ?content) None),
                  Element (Route_element None (Some ''99'')
                     (Some (Host ''Other'' [])) None)]))"
  have pre: "CHR ''#'' \<notin> set ''http://example.com/page''
     \<and> CHR ''?'' \<notin> set ''http://example.com/page''
     \<and> location ?w = url_of_string (''http://example.com/page'' @ ''?tab=profile#/users/42'')"
    by simp
  note T = scenario_users_42 [of "''http://example.com/page''" ?w initial_router
                                 ?content "Host ''Other'' []", THEN mp, OF pre]
  from T have segments: "?ctx = [''users'', ''42'']"
    by (rule conjunct1)
  from T have parameters: "state (handleHashChange ?w initial_router) = [''tab'' \<mapsto> ''profile'']"
    by blast
  from T have "render_node ?ctx ?tree = render_element ?ctx ?content"
    by blast
  then have rendered: "render_node ?ctx ?tree = ([], [Dom_element ''Profile'' [Dom_text ''user 42'']])"
    by simp
  from segments parameters rendered show ?thesis
    by (intro conjI)
qed

lemma query_after_hash_example:
  "location_hash (url_of_string ''http://example.com/page#/users/42?tab=profile'')
     = ''#/users/42?tab=profile''"
  "location_search (url_of_string ''http://example.com/page#/users/42?tab=profile'') = []"
  "filter Boolean (split_on CHR ''/'' ''/users/42?tab=profile'') = [''users'', ''42?tab=profile'']"
  by code_simp+

text \<open>
  Claim C1 as written, for the URL \<open>http://example.com/page#/users/42?tab=profile\<close>: the
  \<open>?\<close> stands after the \<open>#\<close>, so it belongs to the fragment. The segments are \<open>users\<close>
  and \<open>42?tab=profile\<close>, the parameter map is empty, the nested \<open>Route\<close> with path \<open>42\<close>
  does not match, and the tree renders to nothing.
\<close>

theorem scenario_query_after_hash_counterexample:
  "context' (handleHashChange
      \<lparr>location = url_of_string ''http://example.com/page#/users/42?tab=profile'',
        back_entries = [], forward_entries = []\<rparr> initial_router)
     = [''users'', ''42?tab=profile'']
   \<and> state (handleHashChange
      \<lparr>location = url_of_string ''http://example.com/page#/users/42?tab=profile'',
        back_entries = [], forward_entries = []\<rparr> initial_router) = Map.empty
   \<and> \<not> (context' (handleHashChange
      \<lparr>location = url_of_string ''http://example.com/page#/users/42?tab=profile'',
        back_entries = [], forward_entries = []\<rparr> initial_router) = [''users'', ''42'']
        \<and> state (handleHashChange
      \<lparr>location = url_of_string ''http://example.com/page#/users/42?tab=profile'',
        back_entries = [], forward_entries = []\<rparr> initial_router) = [''tab'' \<mapsto> ''profile''])
   \<and> Route (context' (handleHashChange
      \<lparr>location = url_of_string ''http://example.com/page#/users/42?tab=profile'',
        back_entries = [], forward_entries = []\<rparr> initial_router))
        (Some 1) (Some ''42'') (Some (Host ''Profile'' [Text ''user 42''])) None = ([], None)
   \<and> render_node (context' (handleHashChange
      \<lparr>location = url_of_string ''http://example.com/page#/users/42?tab=profile'',
        back_entries = [], forward_entries = []\<rparr> initial_router))
        (Element (Route_element None (Some ''users'') None
           (Some [Element (Route_element None (Some ''42'')
                     (Some (Host ''Profile'' [Text ''user 42''])) None),
                  Element (Route_element None (Some ''99'')
                     (Some (Host ''Other'' [])) None)])))
      = ([], [])"
proof -
  let ?w = "\<lparr>location = url_of_string ''http://example.com/page#/users/42?tab=profile'',
             back_entries = [], forward_entries = []\<rparr>"
  have ctx: "context' (handleHashChange ?w initial_router) = [''users'', ''42?tab=profile'']"
    by code_simp
  have st: "state (handleHashChange ?w initial_router) = Map.empty"
    by (simp add: state_handleHashChange query_after_hash_example substring_def Boolean_def)
  have inner: "Route [''users'', ''42?tab=profile''] (Some 1) (Some ''42'') e None = ([], None)" for e
    by (simp add: Route_mismatch index_def)
  have inner99: "Route [''users'', ''42?tab=profile''] (Some 1) (Some ''99'') e None = ([], None)" for e
    by (simp add: Route_mismatch index_def)
  have outer: "Route [''users'', ''42?tab=profile''] None (Some ''users'') None
        (Some [Element (Route_element None (Some ''42'') (Some a) None),
               Element (Route_element None (Some ''99'') (Some b) None)])
      = ([], Some (Fragment [Element (Route_element (Some 1) (Some ''42'') (Some a) None),
                             Element (Route_element (Some 1) (Some ''99'') (Some b) None)]))" for a b
    by (simp add: Route_default_depth Route_match index_def Children_map_def)
  have rendered: "render_node [''users'', ''42?tab=profile'']
        (Element (Route_element None (Some ''users'') None
           (Some [Element (Route_element None (Some ''42'') (Some a) None),
                  Element (Route_element None (Some ''99'') (Some b) None)]))) = ([], [])" for a b
    by (simp add: inner inner99 outer)
  have differs: "[''users'', ''42?tab=profile''] \<noteq> [''users'', ''42'']"
    by simp
  show ?thesis
    unfolding ctx st
    using differs by (intro conjI inner rendered refl) simp
qed

end
